theory Spec2Isabelle
  imports Complex_Main "HOL-Library.AList"
begin

section \<open>Question queue (the useQuestions hook)\<close>

text \<open>
  The types of \<^verbatim>\<open>types.ts\<close>. A \<^verbatim>\<open>Date\<close> is a number of milliseconds, an
  optional field is an \<open>option\<close>, \<^verbatim>\<open>confidence\<close> is carried unchanged and never
  computed with.
\<close>

datatype QuestionPriority = Blocking | High | Medium | NiceToHave

datatype QuestionStatus = Pending | Answered | Skipped

record QuestionContext =
  ctx_file :: "string option"
  ctx_lineNumber :: "nat option"
  ctx_branch :: "string option"
  ctx_skillLabels :: "string list option"
  ctx_sessionId :: "string option"
  ctx_stepIndex :: "nat option"

record QuestionOption =
  opt_id :: string
  opt_label :: string
  opt_description :: "string option"

record Question =
  q_id :: string
  q_text :: string
  q_priority :: QuestionPriority
  q_confidence :: rat
  q_status :: QuestionStatus
  q_context :: QuestionContext
  q_options :: "QuestionOption list option"
  q_answer :: "string option"
  q_answeredAt :: "nat option"
  q_createdAt :: nat
  q_subject :: "string option"

text \<open>
  An item of an interrupt payload: a question whose fields may all be missing except the
  text (\<^verbatim>\<open>q.id || uuidv4()\<close>, \<^verbatim>\<open>q.priority || "medium"\<close>, ...).
\<close>

record RawQuestion =
  raw_id :: "string option"
  raw_text :: string
  raw_priority :: "QuestionPriority option"
  raw_confidence :: "rat option"
  raw_context :: "QuestionContext option"
  raw_options :: "QuestionOption list option"
  raw_subject :: "string option"
  raw_createdAt :: "nat option"

record QuestionsInterruptData =
  data_questions :: "RawQuestion list option"

text \<open>The second argument of \<^verbatim>\<open>addQuestion\<close>.\<close>

record AddQuestionOpts =
  ao_priority :: "QuestionPriority option"
  ao_confidence :: "rat option"
  ao_context :: "QuestionContext option"
  ao_options :: "QuestionOption list option"
  ao_subject :: "string option"

text \<open>
  \<^verbatim>\<open>UseQuestionsOptions\<close>: the two callbacks are external, so the model records only
  whether each one was passed.
\<close>

record UseQuestionsOptions =
  has_onAnswer :: bool
  has_onResumeWithAnswers :: bool

text \<open>
  What the hook does to the outside: a callback invoked during the call, and a call handed
  to \<^verbatim>\<open>setTimeout(..., 0)\<close>, which runs in a later turn of the event loop.
\<close>

datatype Callback =
  OnAnswer string string
| OnResumeWithAnswers "string \<rightharpoonup> string"

record HookState =
  questions :: "Question list"
  invoked :: "Callback list"
  timers :: "Callback list"

definition emptyContext :: QuestionContext where
  "emptyContext = \<lparr>ctx_file = None, ctx_lineNumber = None, ctx_branch = None,
     ctx_skillLabels = None, ctx_sessionId = None, ctx_stepIndex = None\<rparr>"

text \<open>JavaScript truthiness of an optional string: present and not empty.\<close>

fun truthy :: "string option \<Rightarrow> bool" where
  "truthy None = False"
| "truthy (Some s) = (s \<noteq> [])"

text \<open>\<^verbatim>\<open>a || b\<close> on an optional string whose default is a string.\<close>

definition or_else :: "string option \<Rightarrow> string \<Rightarrow> string" where
  "or_else a b = (if truthy a then the a else b)"

text \<open>
  \<^verbatim>\<open>addQuestion(text, opts)\<close>; \<open>uuid\<close> is the result of \<^verbatim>\<open>uuidv4()\<close> and \<open>now\<close>
  that of \<^verbatim>\<open>new Date()\<close>. Returns the id and the new state.
\<close>

definition addQuestion ::
  "string \<Rightarrow> nat \<Rightarrow> string \<Rightarrow> AddQuestionOpts option \<Rightarrow> HookState \<Rightarrow> string \<times> HookState" where
  "addQuestion uuid now txt opts s =
     (let question = \<lparr>
            q_id = uuid,
            q_text = txt,
            q_priority = (case Option.bind opts ao_priority of Some p \<Rightarrow> p | None \<Rightarrow> Medium),
            q_confidence = (case Option.bind opts ao_confidence of Some c \<Rightarrow> c | None \<Rightarrow> 1 / 2),
            q_status = Pending,
            q_context = (case Option.bind opts ao_context of Some c \<Rightarrow> c | None \<Rightarrow> emptyContext),
            q_options = Option.bind opts ao_options,
            q_answer = None,
            q_answeredAt = None,
            q_createdAt = now,
            q_subject = Option.bind opts ao_subject\<rparr>
      in (uuid, s\<lparr>questions := questions s @ [question]\<rparr>))"

text \<open>
  One item of the batch turned into a question (the \<^verbatim>\<open>map\<close> callback of
  \<^verbatim>\<open>addQuestionsFromInterrupt\<close>); \<open>uuid\<close> is what \<^verbatim>\<open>uuidv4()\<close> returns for it.
  \<^verbatim>\<open>createdAt\<close> arrives as a number of milliseconds and is tested for truthiness,
  so 0 counts as missing.
\<close>

definition fromRaw :: "string \<Rightarrow> nat \<Rightarrow> RawQuestion \<Rightarrow> Question" where
  "fromRaw uuid now q = \<lparr>
     q_id = or_else (raw_id q) uuid,
     q_text = raw_text q,
     q_priority = (case raw_priority q of Some p \<Rightarrow> p | None \<Rightarrow> Medium),
     q_confidence = (case raw_confidence q of Some c \<Rightarrow> c | None \<Rightarrow> 1 / 2),
     q_status = Pending,
     q_context = (case raw_context q of Some c \<Rightarrow> c | None \<Rightarrow> emptyContext),
     q_options = raw_options q,
     q_answer = None,
     q_answeredAt = None,
     q_createdAt = (case raw_createdAt q of
                      Some t \<Rightarrow> if t \<noteq> 0 then t else now
                    | None \<Rightarrow> now),
     q_subject = raw_subject q\<rparr>"

text \<open>
  \<^verbatim>\<open>data.questions.map(...)\<close>: the i-th item gets the i-th generated id,
  \<open>uuids i\<close>, when it has none of its own.
\<close>

fun newQuestions :: "(nat \<Rightarrow> string) \<Rightarrow> nat \<Rightarrow> nat \<Rightarrow> RawQuestion list \<Rightarrow> Question list" where
  "newQuestions uuids now i [] = []"
| "newQuestions uuids now i (q # qs) = fromRaw (uuids i) now q # newQuestions uuids now (Suc i) qs"

text \<open>
  \<^verbatim>\<open>addQuestionsFromInterrupt(data)\<close>: the new questions whose id is not among the
  ids of the previous state are appended; the batch is not compared with itself.
\<close>

definition addQuestionsFromInterrupt ::
  "(nat \<Rightarrow> string) \<Rightarrow> nat \<Rightarrow> QuestionsInterruptData \<Rightarrow> HookState \<Rightarrow> HookState" where
  "addQuestionsFromInterrupt uuids now d s =
     (case data_questions d of
        None \<Rightarrow> s
      | Some raws \<Rightarrow>
          (let new = newQuestions uuids now 0 raws;
               prev = questions s;
               existingIds = set (map q_id prev);
               unique = filter (\<lambda>q. q_id q \<notin> existingIds) new
           in s\<lparr>questions := prev @ unique\<rparr>))"

text \<open>The first state update of \<^verbatim>\<open>answerQuestion\<close>.\<close>

definition markAnswered :: "nat \<Rightarrow> string \<Rightarrow> string \<Rightarrow> Question list \<Rightarrow> Question list" where
  "markAnswered now questionId answer prev =
     map (\<lambda>q. if q_id q = questionId
               then q\<lparr>q_status := Answered, q_answer := Some answer, q_answeredAt := Some now\<rparr>
               else q) prev"

text \<open>
  The \<^verbatim>\<open>filter(...).reduce(...)\<close> of \<^verbatim>\<open>answerQuestion\<close> and of
  \<^verbatim>\<open>getAllAnswers\<close>: a later question overwrites the entry of an earlier one with the
  same id.
\<close>

definition collectAnswers :: "Question list \<Rightarrow> (string \<rightharpoonup> string)" where
  "collectAnswers qs =
     foldl (\<lambda>acc q. acc(q_id q \<mapsto> the (q_answer q))) Map.empty
       (filter (\<lambda>q. q_status q = Answered \<and> truthy (q_answer q)) qs)"

definition stillBlocking :: "Question list \<Rightarrow> Question list" where
  "stillBlocking prev = filter (\<lambda>q. q_priority q = Blocking \<and> q_status q = Pending) prev"

text \<open>
  The second updater \<^verbatim>\<open>answerQuestion\<close> passes to \<^verbatim>\<open>setQuestions\<close>, applied
  once to the list \<open>prev\<close>: it returns \<open>prev\<close> unchanged, so its only effect is on the
  timer queue \<open>tq\<close>, to which \<^verbatim>\<open>setTimeout\<close> adds the resume call.
\<close>

definition resumeCheck ::
  "UseQuestionsOptions \<Rightarrow> Question list \<Rightarrow> Callback list \<Rightarrow> Callback list" where
  "resumeCheck opts prev tq =
     (if length (stillBlocking prev) = 0 \<and> has_onResumeWithAnswers opts
      then tq @ [OnResumeWithAnswers (collectAnswers prev)]
      else tq)"

text \<open>
  \<^verbatim>\<open>answerQuestion(questionId, answer)\<close>: the update, the per-answer callback, then
  the check that schedules the resume callback with \<^verbatim>\<open>setTimeout\<close>. The check sits
  inside a state updater, and how often an updater is applied is React's choice, not the
  hook's: once in a production build, twice in a development build under strict mode, each
  time to the same list. \<open>runs\<close> is that number for the checking updater. The first
  updater has no effect besides its result, of which React keeps one; \<open>now\<close> is the
  \<^verbatim>\<open>new Date()\<close> of the application kept.
\<close>

definition answerQuestion ::
  "UseQuestionsOptions \<Rightarrow> nat \<Rightarrow> nat \<Rightarrow> string \<Rightarrow> string \<Rightarrow> HookState \<Rightarrow> HookState" where
  "answerQuestion opts runs now questionId answer s =
     (let s1 = s\<lparr>questions := markAnswered now questionId answer (questions s)\<rparr>;
          s2 = (if has_onAnswer opts
                then s1\<lparr>invoked := invoked s1 @ [OnAnswer questionId answer]\<rparr> else s1);
          prev = questions s2
      in s2\<lparr>timers := (resumeCheck opts prev ^^ runs) (timers s2)\<rparr>)"

text \<open>\<^verbatim>\<open>skipQuestion(questionId)\<close>.\<close>

definition skipQuestion :: "nat \<Rightarrow> string \<Rightarrow> HookState \<Rightarrow> HookState" where
  "skipQuestion now questionId s =
     s\<lparr>questions :=
         map (\<lambda>q. if q_id q = questionId
                   then q\<lparr>q_status := Skipped, q_answeredAt := Some now\<rparr>
                   else q) (questions s)\<rparr>"

definition clearAnswered :: "HookState \<Rightarrow> HookState" where
  "clearAnswered s = s\<lparr>questions := filter (\<lambda>q. q_status q = Pending) (questions s)\<rparr>"

definition reset :: "HookState \<Rightarrow> HookState" where
  "reset s = s\<lparr>questions := []\<rparr>"

definition getUnansweredBlockingQuestions :: "HookState \<Rightarrow> Question list" where
  "getUnansweredBlockingQuestions s =
     filter (\<lambda>q. q_priority q = Blocking \<and> q_status q = Pending) (questions s)"

definition getAllAnswers :: "HookState \<Rightarrow> (string \<rightharpoonup> string)" where
  "getAllAnswers s = collectAnswers (questions s)"

definition canProceed :: "HookState \<Rightarrow> bool" where
  "canProceed s = (\<not> list_ex (\<lambda>q. q_priority q = Blocking \<and> q_status q = Pending) (questions s))"

text \<open>The next turn of the event loop: the pending timers run, in order.\<close>

definition runTimers :: "HookState \<Rightarrow> HookState" where
  "runTimers s = s\<lparr>invoked := invoked s @ timers s, timers := []\<rparr>"

text \<open>The state of a freshly mounted hook: \<^verbatim>\<open>useState([])\<close>.\<close>

definition initialState :: HookState where
  "initialState = \<lparr>questions = [], invoked = [], timers = []\<rparr>"

section \<open>Messages\<close>

text \<open>
  A message of the stream. Values the code only carries or hands to \<^verbatim>\<open>JSON.stringify\<close>
  (tool arguments, the fields of a content block, a content that is neither a string nor
  an array) are of an opaque type \<open>'v\<close>. A content is a string, an array of strings and
  blocks, another truthy value, or nothing (absent, \<^verbatim>\<open>null\<close> or another falsy value that
  is not a string).
\<close>

record 'v Block =
  blk_text :: "string option"
  blk_fields :: "(string \<times> 'v) list"

datatype 'v ContentItem = ItemString string | ItemBlock "'v Block"

datatype 'v Content = CString string | CArray "'v ContentItem list" | CValue 'v | CNone

record 'v ToolCallRequest =
  tcr_id :: "string option"
  tcr_name :: "string option"
  tcr_args :: "(string \<times> 'v) list option"

record 'v Message =
  msg_id :: "string option"
  msg_type :: string
  msg_content :: "'v Content"
  msg_tool_calls :: "'v ToolCallRequest list option"
  msg_tool_call_id :: "string option"
  msg_name :: "string option"

section \<open>Session controller (the useChat hook)\<close>

record Config =
  cfg_tags :: "string list option"
  cfg_recursion_limit :: "nat option"
  cfg_configurable :: "(string \<times> string) list option"

record Checkpoint =
  cp_thread_id :: string
  cp_checkpoint_ns :: string
  cp_checkpoint_id :: "string option"

text \<open>\<^verbatim>\<open>{ goto: "__end__", update: null }\<close> and \<^verbatim>\<open>{ resume: value }\<close>.\<close>

datatype 'v Command = Goto string | Resume 'v

text \<open>
  \<^verbatim>\<open>optimisticValues\<close>: the function of \<^verbatim>\<open>sendMessage\<close> that appends to the previous
  messages, or the object of \<^verbatim>\<open>runSingleStep\<close> that replaces them.
\<close>

datatype 'v OptimisticValues = AppendMessages "'v Message list" | SetMessages "'v Message list"

record 'v SubmitOptions =
  so_optimisticValues :: "'v OptimisticValues option"
  so_config :: "Config option"
  so_checkpoint :: "Checkpoint option"
  so_streamSubgraphs :: "bool option"
  so_interruptBefore :: "string list option"
  so_interruptAfter :: "string list option"
  so_command :: "'v Command option"

datatype 'v SubmitInput = Values "'v Message list" | Undefined | Null

text \<open>
  What an operation of the controller does to its collaborators, in the order of the calls:
  \<^verbatim>\<open>stream.submit\<close>, \<^verbatim>\<open>onHistoryRevalidate\<close>, \<^verbatim>\<open>stream.stop\<close> and
  \<^verbatim>\<open>client.threads.updateState\<close>.
\<close>

datatype 'v Effect =
  Submit "'v SubmitInput" "'v SubmitOptions"
| HistoryRevalidate
| Stop
| UpdateState string "(string \<times> string) list"

text \<open>
  The arguments of \<^verbatim>\<open>useChat\<close> the operations read: \<^verbatim>\<open>activeAssistant?.config\<close>,
  whether \<^verbatim>\<open>onHistoryRevalidate\<close> was passed, and the thread id of the URL.
\<close>

record ChatEnv =
  env_config :: "Config option"
  env_onHistoryRevalidate :: bool
  env_threadId :: "string option"

definition noOptions :: "'v SubmitOptions" where
  "noOptions = \<lparr>so_optimisticValues = None, so_config = None, so_checkpoint = None,
     so_streamSubgraphs = None, so_interruptBefore = None, so_interruptAfter = None,
     so_command = None\<rparr>"

definition emptyConfig :: Config where
  "emptyConfig = \<lparr>cfg_tags = None, cfg_recursion_limit = None, cfg_configurable = None\<rparr>"

text \<open>\<^verbatim>\<open>{ ...(activeAssistant?.config ?? {}), recursion_limit: 100 }\<close>.\<close>

definition withRecursionLimit :: "Config option \<Rightarrow> Config" where
  "withRecursionLimit c =
     (case c of None \<Rightarrow> emptyConfig | Some cfg \<Rightarrow> cfg)\<lparr>cfg_recursion_limit := Some 100\<rparr>"

text \<open>\<^verbatim>\<open>onHistoryRevalidate?.()\<close>.\<close>

definition revalidate :: "ChatEnv \<Rightarrow> 'v Effect list" where
  "revalidate env = (if env_onHistoryRevalidate env then [HistoryRevalidate] else [])"

text \<open>\<^verbatim>\<open>sendMessage(content)\<close>; \<open>uuid\<close> is the result of \<^verbatim>\<open>uuidv4()\<close>.\<close>

definition sendMessage :: "ChatEnv \<Rightarrow> string \<Rightarrow> string \<Rightarrow> 'v Effect list" where
  "sendMessage env uuid content =
     (let newMessage = \<lparr>msg_id = Some uuid, msg_type = ''human'', msg_content = CString content,
                         msg_tool_calls = None, msg_tool_call_id = None, msg_name = None\<rparr>
      in [Submit (Values [newMessage])
            (noOptions\<lparr>so_optimisticValues := Some (AppendMessages [newMessage]),
                        so_config := Some (withRecursionLimit (env_config env)),
                        so_streamSubgraphs := Some True\<rparr>)]
         @ revalidate env)"

text \<open>
  \<^verbatim>\<open>runSingleStep(messages, checkpoint?, isRerunningSubagent?, optimisticMessages?)\<close>.
\<close>

definition runSingleStep ::
  "ChatEnv \<Rightarrow> 'v Message list \<Rightarrow> Checkpoint option \<Rightarrow> bool option \<Rightarrow> 'v Message list option
     \<Rightarrow> 'v Effect list" where
  "runSingleStep env messages checkpoint isRerunningSubagent optimisticMessages =
     (case checkpoint of
        Some cp \<Rightarrow>
          [Submit Undefined
             (let o1 = (case optimisticMessages of
                          Some ms \<Rightarrow> noOptions\<lparr>so_optimisticValues := Some (SetMessages ms)\<rparr>
                        | None \<Rightarrow> noOptions);
                  o2 = o1\<lparr>so_config := env_config env, so_checkpoint := Some cp,
                          so_streamSubgraphs := Some True\<rparr>
              in if isRerunningSubagent = Some True
                 then o2\<lparr>so_interruptAfter := Some [''tools'']\<rparr>
                 else o2\<lparr>so_interruptBefore := Some [''tools'']\<rparr>)]
      | None \<Rightarrow>
          [Submit (Values messages)
             (noOptions\<lparr>so_config := env_config env, so_interruptBefore := Some [''tools''],
                         so_streamSubgraphs := Some True\<rparr>)])"

text \<open>\<^verbatim>\<open>setFiles(files)\<close>: nothing without a thread id.\<close>

definition setFiles :: "ChatEnv \<Rightarrow> (string \<times> string) list \<Rightarrow> 'v Effect list" where
  "setFiles env files =
     (if truthy (env_threadId env) then [UpdateState (the (env_threadId env)) files] else [])"

text \<open>\<^verbatim>\<open>continueStream(hasTaskToolCall?)\<close>.\<close>

definition continueStream :: "ChatEnv \<Rightarrow> bool option \<Rightarrow> 'v Effect list" where
  "continueStream env hasTaskToolCall =
     [Submit Undefined
        (let o1 = noOptions\<lparr>so_config := Some (withRecursionLimit (env_config env)),
                             so_streamSubgraphs := Some True\<rparr>
         in if hasTaskToolCall = Some True
            then o1\<lparr>so_interruptAfter := Some [''tools'']\<rparr>
            else o1\<lparr>so_interruptBefore := Some [''tools'']\<rparr>)]
     @ revalidate env"

definition markCurrentThreadAsResolved :: "ChatEnv \<Rightarrow> 'v Effect list" where
  "markCurrentThreadAsResolved env =
     [Submit Null (noOptions\<lparr>so_command := Some (Goto ''__end__'')\<rparr>)] @ revalidate env"

definition resumeInterrupt :: "ChatEnv \<Rightarrow> 'v \<Rightarrow> 'v Effect list" where
  "resumeInterrupt env v =
     [Submit Null (noOptions\<lparr>so_command := Some (Resume v), so_streamSubgraphs := Some True\<rparr>)]
     @ revalidate env"

definition stopStream :: "ChatEnv \<Rightarrow> 'v Effect list" where
  "stopStream env = [Stop]"

text \<open>
  The halt points an operation submits: for each \<^verbatim>\<open>stream.submit\<close>, its
  \<^verbatim>\<open>interruptBefore\<close> and \<^verbatim>\<open>interruptAfter\<close> options.
\<close>

fun haltPoints :: "'v Effect list \<Rightarrow> (string list option \<times> string list option) list" where
  "haltPoints [] = []"
| "haltPoints (Submit i opts # es) = (so_interruptBefore opts, so_interruptAfter opts) # haltPoints es"
| "haltPoints (e # es) = haltPoints es"

section \<open>Subagent message demultiplexer (the stream callbacks of useChat)\<close>

subsection \<open>JavaScript pieces\<close>

text \<open>
  A JavaScript \<^verbatim>\<open>Map\<close> with string keys, in insertion order: \<^verbatim>\<open>set\<close> replaces the
  value of a key in place or appends a new entry.
\<close>

type_synonym 'a JsMap = "(string \<times> 'a) list"

definition Map_has :: "'a JsMap \<Rightarrow> string \<Rightarrow> bool" where
  "Map_has m k = (map_of m k \<noteq> None)"

definition Map_get :: "'a JsMap \<Rightarrow> string \<Rightarrow> 'a option" where
  "Map_get m k = map_of m k"

definition Map_set :: "string \<Rightarrow> 'a \<Rightarrow> 'a JsMap \<Rightarrow> 'a JsMap" where
  "Map_set k v m = AList.update k v m"

text \<open>A number in a template literal: its decimal digits.\<close>

fun show_nat :: "nat \<Rightarrow> string" where
  "show_nat n =
     (if n < 10 then [char_of (48 + n)] else show_nat (n div 10) @ [char_of (48 + n mod 10)])"

declare show_nat.simps [simp del]

text \<open>
  Strings are sequences of UTF-8 bytes. The line terminators, which \<^verbatim>\<open>.\<close> of a regular
  expression does not match: LF, CR, U+2028 and U+2029 (\<^verbatim>\<open>E2 80 A8\<close> and
  \<^verbatim>\<open>E2 80 A9\<close>).
\<close>

fun has_line_terminator :: "string \<Rightarrow> bool" where
  "has_line_terminator [] = False"
| "has_line_terminator (c # cs) =
     (c = CHR 0x0A \<or> c = CHR 0x0D \<or>
      (c = CHR 0xE2 \<and> (take 2 cs = [CHR 0x80, CHR 0xA8] \<or> take 2 cs = [CHR 0x80, CHR 0xA9])) \<or>
      has_line_terminator cs)"

text \<open>
  \<^verbatim>\<open>namespaceStr.match(/^tools:(.+)$/)\<close>: the capture group when the string is
  \<^verbatim>\<open>tools:\<close> followed by one or more characters, none a line terminator.
\<close>

definition toolCallIdMatch :: "string \<Rightarrow> string option" where
  "toolCallIdMatch namespaceStr =
     (if take 6 namespaceStr = ''tools:'' \<and> drop 6 namespaceStr \<noteq> [] \<and>
         \<not> has_line_terminator (drop 6 namespaceStr)
      then Some (drop 6 namespaceStr) else None)"

text \<open>\<^verbatim>\<open>toolCallIdMatch ? toolCallIdMatch[1] : namespaceStr\<close>.\<close>

definition toolCallIdOf :: "string \<Rightarrow> string" where
  "toolCallIdOf namespaceStr =
     (case toolCallIdMatch namespaceStr of Some g \<Rightarrow> g | None \<Rightarrow> namespaceStr)"

subsection \<open>Events\<close>

record 'v ModelPart =
  mp_messages :: "'v Message list option"

text \<open>The data of an update event: \<^verbatim>\<open>data.model?.messages\<close> and \<^verbatim>\<open>data.messages\<close>.\<close>

record 'v UpdateData =
  ud_model :: "'v ModelPart option"
  ud_messages :: "'v Message list option"

record 'v DebugInput =
  di_messages :: "'v Message list option"

text \<open>
  The payload of a debug event: \<^verbatim>\<open>messages\<close>, \<^verbatim>\<open>input.messages\<close>, its
  \<^verbatim>\<open>type\<close>, and the fields read from it when it is itself a tool message.
\<close>

record 'v DebugPayload =
  dp_type :: "string option"
  dp_messages :: "'v Message list option"
  dp_input :: "'v DebugInput option"
  dp_id :: "string option"
  dp_content :: "'v Content"
  dp_tool_calls :: "'v ToolCallRequest list option"
  dp_tool_call_id :: "string option"
  dp_name :: "string option"

record 'v DebugData =
  dd_type :: "string option"
  dd_payload :: "'v DebugPayload option"

text \<open>An event with \<^verbatim>\<open>options.namespace\<close>, which may be missing.\<close>

datatype 'v StreamEvent =
  UpdateEvent "'v UpdateData" "string list option"
| DebugEvent "'v DebugData" "string list option"

subsection \<open>The store of one thread\<close>

text \<open>
  \<^verbatim>\<open>subagentMessageIds.current\<close> (a \<^verbatim>\<open>Set\<close>) and
  \<^verbatim>\<open>subagentMessages.current\<close> (a \<^verbatim>\<open>Map\<close> from tool-call id to message array).
\<close>

record 'v Demux =
  subagentMessageIds :: "string set"
  subagentMessages :: "'v Message list JsMap"

definition emptyDemux :: "'v Demux" where
  "emptyDemux = \<lparr>subagentMessageIds = {}, subagentMessages = []\<rparr>"

text \<open>
  The body of the \<^verbatim>\<open>forEach\<close> callbacks and of the tool-payload branch, for one
  message: \<open>fallbackId\<close> is the template string used when \<^verbatim>\<open>msg.id\<close> is falsy.
\<close>

definition track :: "string \<Rightarrow> string \<Rightarrow> 'v Message \<Rightarrow> 'v Demux \<Rightarrow> 'v Demux" where
  "track toolCallId fallbackId msg s =
     (let msgId = or_else (msg_id msg) fallbackId;
          ids = insert msgId (subagentMessageIds s);
          m1 = (if \<not> Map_has (subagentMessages s) toolCallId
                then Map_set toolCallId [] (subagentMessages s) else subagentMessages s);
          existing = the (Map_get m1 toolCallId);
          m2 = (if \<not> list_ex (\<lambda>m. msg_id m = Some msgId) existing
                then Map_set toolCallId (existing @ [msg\<lparr>msg_id := Some msgId\<rparr>]) m1
                else m1)
      in \<lparr>subagentMessageIds = ids, subagentMessages = m2\<rparr>)"

text \<open>\<^verbatim>\<open>messages.forEach((msg, idx) => ...)\<close>; \<open>fallback idx\<close> is the id made for index \<open>idx\<close>.\<close>

fun trackAll ::
  "(nat \<Rightarrow> string) \<Rightarrow> string \<Rightarrow> nat \<Rightarrow> 'v Message list \<Rightarrow> 'v Demux \<Rightarrow> 'v Demux" where
  "trackAll fallback toolCallId idx [] s = s"
| "trackAll fallback toolCallId idx (msg # msgs) s =
     trackAll fallback toolCallId (Suc idx) msgs (track toolCallId (fallback idx) msg s)"

text \<open>\<^verbatim>\<open>updateData.model?.messages || updateData.messages\<close> (an array is truthy).\<close>

definition updateMessages :: "'v UpdateData \<Rightarrow> 'v Message list option" where
  "updateMessages d =
     (case Option.bind (ud_model d) mp_messages of Some ms \<Rightarrow> Some ms | None \<Rightarrow> ud_messages d)"

text \<open>
  \<^verbatim>\<open>onUpdateEvent(data, options)\<close>; \<open>now\<close> is the value of \<^verbatim>\<open>Date.now()\<close> during
  the call.
\<close>

definition onUpdateEvent :: "nat \<Rightarrow> 'v UpdateData \<Rightarrow> string list option \<Rightarrow> 'v Demux \<Rightarrow> 'v Demux" where
  "onUpdateEvent now d namespace s =
     (case namespace of
        Some (namespaceStr # rest) \<Rightarrow>
          (let toolCallId = toolCallIdOf namespaceStr
           in case updateMessages d of
                Some messages \<Rightarrow>
                  trackAll (\<lambda>idx. toolCallId @ ''-msg-'' @ show_nat idx @ ''-'' @ show_nat now)
                    toolCallId 0 messages s
              | None \<Rightarrow> s)
      | _ \<Rightarrow> s)"

text \<open>
  \<^verbatim>\<open>[payload?.messages, payload?.input?.messages].filter(Boolean)\<close>.
\<close>

definition messageSources :: "'v DebugData \<Rightarrow> 'v Message list list" where
  "messageSources d =
     List.map_filter (\<lambda>x. x)
       [Option.bind (dd_payload d) dp_messages,
        Option.bind (Option.bind (dd_payload d) dp_input) di_messages]"

text \<open>The payload read as a message, when \<^verbatim>\<open>payload?.type === "tool"\<close>.\<close>

definition toolPayload :: "'v DebugData \<Rightarrow> 'v Message option" where
  "toolPayload d =
     (case dd_payload d of
        None \<Rightarrow> None
      | Some p \<Rightarrow>
          if dp_type p = Some ''tool''
          then Some \<lparr>msg_id = dp_id p, msg_type = ''tool'', msg_content = dp_content p,
                     msg_tool_calls = dp_tool_calls p, msg_tool_call_id = dp_tool_call_id p,
                     msg_name = dp_name p\<rparr>
          else None)"

text \<open>\<^verbatim>\<open>onDebugEvent(data, options)\<close>.\<close>

definition onDebugEvent :: "nat \<Rightarrow> 'v DebugData \<Rightarrow> string list option \<Rightarrow> 'v Demux \<Rightarrow> 'v Demux" where
  "onDebugEvent now d namespace s =
     (case namespace of
        Some (namespaceStr # rest) \<Rightarrow>
          (let toolCallId = toolCallIdOf namespaceStr;
               s1 = fold (\<lambda>messages.
                      trackAll (\<lambda>idx. ''debug-'' @ toolCallId @ ''-msg-'' @ show_nat idx @ ''-'' @ show_nat now)
                        toolCallId 0 messages)
                      (messageSources d) s
           in case toolPayload d of
                Some msg \<Rightarrow> track toolCallId (''debug-tool-'' @ show_nat now) msg s1
              | None \<Rightarrow> s1)
      | _ \<Rightarrow> s)"

definition onEvent :: "nat \<Rightarrow> 'v StreamEvent \<Rightarrow> 'v Demux \<Rightarrow> 'v Demux" where
  "onEvent now e s =
     (case e of
        UpdateEvent d namespace \<Rightarrow> onUpdateEvent now d namespace s
      | DebugEvent d namespace \<Rightarrow> onDebugEvent now d namespace s)"

text \<open>A stream: the events in the order of their arrival, each with the time it is handled.\<close>

definition runEvents :: "(nat \<times> 'v StreamEvent) list \<Rightarrow> 'v Demux \<Rightarrow> 'v Demux" where
  "runEvents evs s = fold (\<lambda>(now, e). onEvent now e) evs s"

subsection \<open>Notions used to state the properties\<close>

text \<open>The namespace of an event, and the messages the callbacks read from it, in order.\<close>

definition eventNamespace :: "'v StreamEvent \<Rightarrow> string list option" where
  "eventNamespace e = (case e of UpdateEvent d ns \<Rightarrow> ns | DebugEvent d ns \<Rightarrow> ns)"

definition eventMessages :: "'v StreamEvent \<Rightarrow> 'v Message list" where
  "eventMessages e =
     (case e of
        UpdateEvent d ns \<Rightarrow> (case updateMessages d of Some ms \<Rightarrow> ms | None \<Rightarrow> [])
      | DebugEvent d ns \<Rightarrow>
          concat (messageSources d) @ (case toolPayload d of Some m \<Rightarrow> [m] | None \<Rightarrow> []))"

text \<open>The log of a tool-call id: its array in the store, empty when the key is missing.\<close>

definition logOf :: "'v Demux \<Rightarrow> string \<Rightarrow> 'v Message list" where
  "logOf s k = (case Map_get (subagentMessages s) k of Some l \<Rightarrow> l | None \<Rightarrow> [])"

subsection \<open>Notions used in the proofs\<close>

text \<open>
  The calls of \<open>track\<close> an event makes, in order, each with its tool-call id, its fallback
  id and its message; the callbacks are shown below to be these calls and nothing else.
\<close>

definition tracksOf ::
  "(nat \<Rightarrow> string) \<Rightarrow> string \<Rightarrow> nat \<Rightarrow> 'v Message list \<Rightarrow> (string \<times> string \<times> 'v Message) list" where
  "tracksOf fallback toolCallId idx msgs =
     map (\<lambda>(j, msg). (toolCallId, fallback j, msg)) (List.enumerate idx msgs)"

definition eventTracks :: "nat \<Rightarrow> 'v StreamEvent \<Rightarrow> (string \<times> string \<times> 'v Message) list" where
  "eventTracks now e =
     (case eventNamespace e of
        Some (namespaceStr # rest) \<Rightarrow>
          (let k = toolCallIdOf namespaceStr
           in case e of
                UpdateEvent d ns \<Rightarrow>
                  (case updateMessages d of
                     Some ms \<Rightarrow>
                       tracksOf (\<lambda>idx. k @ ''-msg-'' @ show_nat idx @ ''-'' @ show_nat now) k 0 ms
                   | None \<Rightarrow> [])
              | DebugEvent d ns \<Rightarrow>
                  concat (map (tracksOf
                      (\<lambda>idx. ''debug-'' @ k @ ''-msg-'' @ show_nat idx @ ''-'' @ show_nat now) k 0)
                    (messageSources d))
                  @ (case toolPayload d of
                       Some m \<Rightarrow> [(k, ''debug-tool-'' @ show_nat now, m)]
                     | None \<Rightarrow> []))
      | _ \<Rightarrow> [])"

definition applyTracks :: "(string \<times> string \<times> 'v Message) list \<Rightarrow> 'v Demux \<Rightarrow> 'v Demux" where
  "applyTracks ts s = fold (\<lambda>(k, fb, m). track k fb m) ts s"

text \<open>The message \<open>track\<close> appends for a call, with the id it files it under.\<close>

definition filed :: "string \<times> string \<times> 'v Message \<Rightarrow> 'v Message" where
  "filed t = (case t of (k, fb, m) \<Rightarrow> m\<lparr>msg_id := Some (or_else (msg_id m) fb)\<rparr>)"

section \<open>Reconstruction of tool calls for display (ChatMessage)\<close>

datatype ToolCallStatus = TcPending | TcCompleted | TcError | TcInterrupted

record 'v ToolCall =
  tc_id :: "string option"
  tc_name :: string
  tc_args :: "(string \<times> 'v) list"
  tc_result :: "string option"
  tc_status :: ToolCallStatus

text \<open>\<^verbatim>\<open>Array.prototype.join\<close> on strings.\<close>

fun join :: "string \<Rightarrow> string list \<Rightarrow> string" where
  "join sep [] = []"
| "join sep [x] = x"
| "join sep (x # y # ys) = x @ sep @ join sep (y # ys)"

text \<open>
  \<^verbatim>\<open>subagentMessages ? Array.from(subagentMessages.values()).flat() : []\<close>, for the
  \<^verbatim>\<open>subagentMessages\<close> property \<open>store\<close> of the component.
\<close>

definition allSubagentMsgs :: "'v Message list JsMap option \<Rightarrow> 'v Message list" where
  "allSubagentMsgs store =
     (case store of Some m \<Rightarrow> concat (map snd m) | None \<Rightarrow> [])"

text \<open>
  The first \<^verbatim>\<open>forEach\<close>: the \<^verbatim>\<open>Map\<close> from tool-call id to tool message; a later
  message replaces an earlier one with the same \<^verbatim>\<open>tool_call_id\<close>.
\<close>

definition toolResults :: "'v Message list \<Rightarrow> 'v Message JsMap" where
  "toolResults msgs =
     fold (\<lambda>msg acc. if msg_type msg = ''tool'' \<and> truthy (msg_tool_call_id msg)
                      then Map_set (the (msg_tool_call_id msg)) msg acc else acc) msgs []"

text \<open>
  \<^verbatim>\<open>typeof item === "string" ? item : item.text || JSON.stringify(item)\<close>;
  \<open>stringify\<close> is \<^verbatim>\<open>JSON.stringify\<close> on a block.
\<close>

definition itemText :: "('v Block \<Rightarrow> string) \<Rightarrow> 'v ContentItem \<Rightarrow> string" where
  "itemText stringify item =
     (case item of
        ItemString s \<Rightarrow> s
      | ItemBlock b \<Rightarrow> if truthy (blk_text b) then the (blk_text b) else stringify b)"

text \<open>
  The result content of a tool call; \<open>stringify2\<close> is
  \<^verbatim>\<open>JSON.stringify(content, null, 2)\<close>.
\<close>

definition resultContent ::
  "('v Block \<Rightarrow> string) \<Rightarrow> ('v \<Rightarrow> string) \<Rightarrow> 'v Message option \<Rightarrow> string option" where
  "resultContent stringify stringify2 toolResult =
     (case toolResult of
        None \<Rightarrow> None
      | Some r \<Rightarrow>
          (case msg_content r of
             CString s \<Rightarrow> Some s
           | CArray items \<Rightarrow> Some (join [CHR 0x0A] (map (itemText stringify) items))
           | CValue v \<Rightarrow> Some (stringify2 v)
           | CNone \<Rightarrow> None))"

text \<open>The record pushed for one tool-call request \<open>tc\<close>.\<close>

definition toolCallOf ::
  "('v Block \<Rightarrow> string) \<Rightarrow> ('v \<Rightarrow> string) \<Rightarrow> 'v Message JsMap \<Rightarrow> 'v ToolCallRequest \<Rightarrow> 'v ToolCall" where
  "toolCallOf stringify stringify2 results tc =
     (let toolResult = (case tcr_id tc of Some i \<Rightarrow> Map_get results i | None \<Rightarrow> None)
      in \<lparr>tc_id = tcr_id tc,
          tc_name = or_else (tcr_name tc) ''unknown'',
          tc_args = (case tcr_args tc of Some a \<Rightarrow> a | None \<Rightarrow> []),
          tc_result = resultContent stringify stringify2 toolResult,
          tc_status = (if toolResult \<noteq> None then TcCompleted else TcPending)\<rparr>)"

text \<open>The second \<^verbatim>\<open>forEach\<close>: the records, in the order they are pushed.\<close>

definition subagentToolCalls ::
  "('v Block \<Rightarrow> string) \<Rightarrow> ('v \<Rightarrow> string) \<Rightarrow> 'v Message list \<Rightarrow> 'v ToolCall list" where
  "subagentToolCalls stringify stringify2 msgs =
     (let results = toolResults msgs
      in fold (\<lambda>msg acc.
            if msg_type msg = ''ai''
            then (case msg_tool_calls msg of
                    Some tcs \<Rightarrow> fold (\<lambda>tc acc'. acc' @ [toolCallOf stringify stringify2 results tc]) tcs acc
                  | None \<Rightarrow> acc)
            else acc) msgs [])"

text \<open>
  The activity block of a subagent card: nothing when no subagent message was accumulated,
  else the tool calls rebuilt from all the logs of the store, flattened in the order of the
  \<^verbatim>\<open>Map\<close>. (The text of the ai messages, shown beside them, is left out.)
\<close>

definition subagentActivity ::
  "('v Block \<Rightarrow> string) \<Rightarrow> ('v \<Rightarrow> string) \<Rightarrow> 'v Message list JsMap option \<Rightarrow> 'v ToolCall list option" where
  "subagentActivity stringify stringify2 store =
     (let msgs = allSubagentMsgs store
      in if length msgs = 0 then None else Some (subagentToolCalls stringify stringify2 msgs))"

subsection \<open>Notions used to state the properties\<close>

text \<open>The tool-call requests of the ai messages, in order.\<close>

definition requestsOf :: "'v Message list \<Rightarrow> 'v ToolCallRequest list" where
  "requestsOf msgs =
     concat (map (\<lambda>m. case msg_tool_calls m of Some tcs \<Rightarrow> tcs | None \<Rightarrow> [])
                 (filter (\<lambda>m. msg_type m = ''ai'') msgs))"

text \<open>The tool messages that answer a request id: tool role, a non-empty \<^verbatim>\<open>tool_call_id\<close>, the same id.\<close>

definition answersTo :: "string option \<Rightarrow> 'v Message list \<Rightarrow> 'v Message list" where
  "answersTo i msgs =
     filter (\<lambda>m. msg_type m = ''tool'' \<and> truthy (msg_tool_call_id m) \<and> msg_tool_call_id m = i) msgs"

section \<open>Sample inputs\<close>

text \<open>
  The scenario of the specification's testable properties: an ai message \<^verbatim>\<open>m1\<close> that
  requests the tool call \<^verbatim>\<open>tc1\<close>, the tool message \<^verbatim>\<open>m2\<close> that answers it, and the
  events that carry them under a namespace. The opaque values are strings here.
\<close>

definition sampleAi :: "string Message" where
  "sampleAi = \<lparr>msg_id = Some ''m1'', msg_type = ''ai'', msg_content = CString '''',
     msg_tool_calls = Some [\<lparr>tcr_id = Some ''tc1'', tcr_name = Some ''search'',
                             tcr_args = Some [(''q'', ''x'')]\<rparr>],
     msg_tool_call_id = None, msg_name = None\<rparr>"

definition sampleTool :: "string Content \<Rightarrow> string Message" where
  "sampleTool c = \<lparr>msg_id = Some ''m2'', msg_type = ''tool'', msg_content = c,
     msg_tool_calls = None, msg_tool_call_id = Some ''tc1'', msg_name = None\<rparr>"

text \<open>An update event \<^verbatim>\<open>{messages: msgs}\<close> under the namespace \<open>ns\<close>.\<close>

definition sampleUpdate :: "string list \<Rightarrow> string Message list \<Rightarrow> string StreamEvent" where
  "sampleUpdate ns msgs = UpdateEvent \<lparr>ud_model = None, ud_messages = Some msgs\<rparr> (Some ns)"

text \<open>A debug event with payload \<^verbatim>\<open>{input: {messages: msgs}}\<close> under the namespace \<open>ns\<close>.\<close>

definition sampleDebug :: "string list \<Rightarrow> string Message list \<Rightarrow> string StreamEvent" where
  "sampleDebug ns msgs =
     DebugEvent \<lparr>dd_type = Some ''checkpoint'',
       dd_payload = Some \<lparr>dp_type = None, dp_messages = None,
         dp_input = Some \<lparr>di_messages = Some msgs\<rparr>, dp_id = None, dp_content = CNone,
         dp_tool_calls = None, dp_tool_call_id = None, dp_name = None\<rparr>\<rparr> (Some ns)"

text \<open>Stand-ins for the two uses of \<^verbatim>\<open>JSON.stringify\<close>, which mark where its output goes.\<close>

definition sampleStringify :: "string Block \<Rightarrow> string" where
  "sampleStringify b = ''[dump of the block]''"

definition sampleStringify2 :: "string \<Rightarrow> string" where
  "sampleStringify2 v = ''[formatted value]''"

section \<open>Properties of the question queue\<close>

subsection \<open>Auxiliary facts\<close>

lemma markAnswered_ids: "map q_id (markAnswered now i a qs) = map q_id qs"
  by (induction qs) (simp_all add: markAnswered_def)

lemma collectAnswers_snoc:
  "collectAnswers (qs @ [q]) =
     (if q_status q = Answered \<and> truthy (q_answer q)
      then (collectAnswers qs)(q_id q \<mapsto> the (q_answer q)) else collectAnswers qs)"
  by (simp add: collectAnswers_def)

lemma collectAnswers_Nil: "collectAnswers [] = Map.empty"
  by (simp add: collectAnswers_def)

lemma truthy_iff: "truthy x \<longleftrightarrow> (\<exists>v. x = Some v \<and> v \<noteq> [])"
  by (cases x) simp_all

lemma collectAnswers_dom:
  "dom (collectAnswers qs) = q_id ` {q \<in> set qs. q_status q = Answered \<and> truthy (q_answer q)}"
proof (induction qs rule: rev_induct)
  case Nil
  show ?case by (simp add: collectAnswers_Nil)
next
  case (snoc q qs)
  then show ?case by (auto simp: collectAnswers_snoc)
qed

lemma collectAnswers_sound:
  "collectAnswers qs k = Some v \<Longrightarrow>
     \<exists>q\<in>set qs. q_id q = k \<and> q_status q = Answered \<and> q_answer q = Some v \<and> v \<noteq> []"
proof (induction qs rule: rev_induct)
  case Nil
  then show ?case by (simp add: collectAnswers_Nil)
next
  case (snoc q qs)
  then show ?case
    by (auto simp: collectAnswers_snoc truthy_iff split: if_splits)
qed

lemma collectAnswers_complete:
  "distinct (map q_id qs) \<Longrightarrow> q \<in> set qs \<Longrightarrow> q_status q = Answered \<Longrightarrow> truthy (q_answer q) \<Longrightarrow>
     collectAnswers qs (q_id q) = q_answer q"
proof (induction qs rule: rev_induct)
  case Nil
  then show ?case by simp
next
  case (snoc x xs)
  show ?case
  proof (cases "q \<in> set xs")
    case True
    with snoc have "q_id x \<noteq> q_id q" by auto
    with snoc True show ?thesis by (simp add: collectAnswers_snoc)
  next
    case False
    with snoc have "q = x" by simp
    with snoc show ?thesis by (auto simp: collectAnswers_snoc truthy_iff)
  qed
qed

lemma map_if_unchanged:
  "i \<notin> set (map q_id qs) \<Longrightarrow> map (\<lambda>q. if q_id q = i then f q else q) qs = qs"
  by (induction qs) auto

lemma stillBlocking_markAnswered:
  "stillBlocking (markAnswered now i a qs) = filter (\<lambda>q. q_id q \<noteq> i) (stillBlocking qs)"
  by (induction qs) (auto simp: stillBlocking_def markAnswered_def)

lemma stillBlocking_empty_iff:
  "stillBlocking (markAnswered now i a qs) = [] \<longleftrightarrow>
     (\<forall>q\<in>set qs. q_priority q = Blocking \<and> q_status q = Pending \<longrightarrow> q_id q = i)"
proof -
  have "stillBlocking (markAnswered now i a qs) = [] \<longleftrightarrow>
          (\<forall>q\<in>set (stillBlocking qs). q_id q = i)"
    by (simp only: stillBlocking_markAnswered filter_empty_conv) simp
  also have "\<dots> \<longleftrightarrow> (\<forall>q\<in>set qs. q_priority q = Blocking \<and> q_status q = Pending \<longrightarrow> q_id q = i)"
    by (auto simp: stillBlocking_def)
  finally show ?thesis .
qed

lemma addQuestionsFromInterrupt_existing:
  "\<exists>added. questions (addQuestionsFromInterrupt uuids now d s) = questions s @ added \<and>
     (\<forall>q\<in>set added. q_id q \<notin> q_id ` set (questions s))"
  by (auto simp: addQuestionsFromInterrupt_def Let_def split: option.splits)

lemma addQuestionsFromInterrupt_distinct:
  assumes "distinct (map q_id (questions s))"
    and "data_questions d = Some raws"
    and "distinct (map q_id (newQuestions uuids now 0 raws))"
  shows "distinct (map q_id (questions (addQuestionsFromInterrupt uuids now d s)))"
proof -
  let ?unique = "filter (\<lambda>q. q_id q \<notin> set (map q_id (questions s))) (newQuestions uuids now 0 raws)"
  have "distinct (map q_id ?unique)"
    using assms(3) by (rule distinct_map_filter)
  moreover have "set (map q_id (questions s)) \<inter> set (map q_id ?unique) = {}"
    by (auto simp: image_iff)
  ultimately show ?thesis
    using assms(1,2) by (simp add: addQuestionsFromInterrupt_def Let_def)
qed

lemma addQuestion_distinct:
  assumes "distinct (map q_id (questions s))" and "uuid \<notin> q_id ` set (questions s)"
  shows "distinct (map q_id (questions (snd (addQuestion uuid now txt opts s))))"
  using assms by (simp add: addQuestion_def)

subsection \<open>The resume notification\<close>

lemma resumeCheck_funpow:
  "(resumeCheck opts prev ^^ n) tq =
     (if length (stillBlocking prev) = 0 \<and> has_onResumeWithAnswers opts
      then tq @ replicate n (OnResumeWithAnswers (collectAnswers prev))
      else tq)"
proof (induction n)
  case 0
  show ?case by simp
next
  case (Suc n)
  have "(resumeCheck opts prev ^^ Suc n) tq = resumeCheck opts prev ((resumeCheck opts prev ^^ n) tq)"
    by simp
  also have "\<dots> =
      (if length (stillBlocking prev) = 0 \<and> has_onResumeWithAnswers opts
       then tq @ replicate (Suc n) (OnResumeWithAnswers (collectAnswers prev))
       else tq)"
    unfolding Suc.IH by (simp add: resumeCheck_def replicate_append_same)
  finally show ?case .
qed

text \<open>
  C1, as the code has it. Let \<^verbatim>\<open>answerQuestion\<close> be called with a resume callback
  registered, on a set whose pending blocking questions all carry the id answered (so it
  answers the last pending blocking question, or none is pending). Then one resume call is
  handed to the timer queue for each time React applies the checking updater, all with the
  same mapping, and none is run during the call; they run in the next turn. It is exactly
  one call when the updater is applied once, and two when it is applied twice, as a
  development build under strict mode does. The keys of the mapping are the ids of the
  questions answered with a non-empty answer, every entry is the answer of such a question,
  and with unique ids the mapping holds every such pair; a skipped question contributes
  nothing. The call does not depend on any question being answered with a non-empty
  answer. Otherwise (no callback, or another pending blocking question) nothing is
  scheduled, however often the updater is applied. The per-answer callback is the only one
  invoked during the call, once.
\<close>

theorem answerQuestion_resume:
  fixes s :: HookState and opts :: UseQuestionsOptions and runs now :: nat
    and questionId answer :: string
  defines "s' \<equiv> answerQuestion opts runs now questionId answer s"
  defines "last_blocking \<equiv> (\<forall>q\<in>set (questions s).
             q_priority q = Blocking \<and> q_status q = Pending \<longrightarrow> q_id q = questionId)"
  shows "(has_onResumeWithAnswers opts \<and> last_blocking \<longrightarrow>
           (\<exists>m. timers s' = timers s @ replicate runs (OnResumeWithAnswers m) \<and>
                (runs = 1 \<longrightarrow> timers s' = timers s @ [OnResumeWithAnswers m]) \<and>
                (runs = 2 \<longrightarrow>
                   timers s' = timers s @ [OnResumeWithAnswers m, OnResumeWithAnswers m]) \<and>
                invoked (runTimers s') =
                  invoked s' @ timers s @ replicate runs (OnResumeWithAnswers m) \<and>
                dom m = q_id ` {q \<in> set (questions s'). q_status q = Answered \<and> truthy (q_answer q)} \<and>
                (\<forall>k v. m k = Some v \<longrightarrow>
                   (\<exists>q\<in>set (questions s'). q_id q = k \<and> q_status q = Answered \<and>
                                            q_answer q = Some v \<and> v \<noteq> [])) \<and>
                (distinct (map q_id (questions s)) \<longrightarrow>
                   (\<forall>q\<in>set (questions s'). q_status q = Answered \<and> truthy (q_answer q) \<longrightarrow>
                      m (q_id q) = q_answer q)))) \<and>
         (\<not> (has_onResumeWithAnswers opts \<and> last_blocking) \<longrightarrow> timers s' = timers s) \<and>
         invoked s' = invoked s @ (if has_onAnswer opts then [OnAnswer questionId answer] else [])"
proof -
  let ?qs' = "markAnswered now questionId answer (questions s)"
  let ?m = "collectAnswers ?qs'"
  have qs': "questions s' = ?qs'"
    by (simp add: s'_def answerQuestion_def Let_def)
  have inv: "invoked s' = invoked s @ (if has_onAnswer opts then [OnAnswer questionId answer] else [])"
    by (simp add: s'_def answerQuestion_def Let_def)
  have empty: "stillBlocking ?qs' = [] \<longleftrightarrow> last_blocking"
    unfolding last_blocking_def by (rule stillBlocking_empty_iff)
  have tm: "timers s' = (resumeCheck opts ?qs' ^^ runs) (timers s)"
    by (simp add: s'_def answerQuestion_def Let_def)
  have no: "\<not> (has_onResumeWithAnswers opts \<and> last_blocking) \<Longrightarrow> timers s' = timers s"
    using empty unfolding tm resumeCheck_funpow by auto
  have yes: "has_onResumeWithAnswers opts \<and> last_blocking \<Longrightarrow>
               timers s' = timers s @ replicate runs (OnResumeWithAnswers ?m)"
    using empty unfolding tm resumeCheck_funpow by auto
  have dist: "distinct (map q_id (questions s)) \<Longrightarrow> distinct (map q_id ?qs')"
    by (simp add: markAnswered_ids)
  have fire: "\<exists>m. timers s' = timers s @ replicate runs (OnResumeWithAnswers m) \<and>
                (runs = 1 \<longrightarrow> timers s' = timers s @ [OnResumeWithAnswers m]) \<and>
                (runs = 2 \<longrightarrow>
                   timers s' = timers s @ [OnResumeWithAnswers m, OnResumeWithAnswers m]) \<and>
                invoked (runTimers s') =
                  invoked s' @ timers s @ replicate runs (OnResumeWithAnswers m) \<and>
                dom m = q_id ` {q \<in> set (questions s'). q_status q = Answered \<and> truthy (q_answer q)} \<and>
                (\<forall>k v. m k = Some v \<longrightarrow>
                   (\<exists>q\<in>set (questions s'). q_id q = k \<and> q_status q = Answered \<and>
                                            q_answer q = Some v \<and> v \<noteq> [])) \<and>
                (distinct (map q_id (questions s)) \<longrightarrow>
                   (\<forall>q\<in>set (questions s'). q_status q = Answered \<and> truthy (q_answer q) \<longrightarrow>
                      m (q_id q) = q_answer q))"
    if h: "has_onResumeWithAnswers opts \<and> last_blocking"
  proof (intro exI conjI allI impI ballI)
    show t: "timers s' = timers s @ replicate runs (OnResumeWithAnswers ?m)"
      using yes h by simp
    show "timers s' = timers s @ [OnResumeWithAnswers ?m]" if "runs = 1"
      using t that by simp
    show "timers s' = timers s @ [OnResumeWithAnswers ?m, OnResumeWithAnswers ?m]" if "runs = 2"
      using t that by (simp add: numeral_2_eq_2)
    show "invoked (runTimers s') = invoked s' @ timers s @ replicate runs (OnResumeWithAnswers ?m)"
      using t by (simp add: runTimers_def)
    show "dom ?m = q_id ` {q \<in> set (questions s'). q_status q = Answered \<and> truthy (q_answer q)}"
      by (simp only: qs' collectAnswers_dom)
  next
    fix k v assume "?m k = Some v"
    then show "\<exists>q\<in>set (questions s'). q_id q = k \<and> q_status q = Answered \<and>
                 q_answer q = Some v \<and> v \<noteq> []"
      unfolding qs' by (rule collectAnswers_sound)
  next
    fix q assume "distinct (map q_id (questions s))" "q \<in> set (questions s')"
      "q_status q = Answered \<and> truthy (q_answer q)"
    then show "?m (q_id q) = q_answer q"
      using dist collectAnswers_complete [of ?qs' q] by (simp add: qs')
  qed
  from fire no inv show ?thesis by blast
qed

theorem answerQuestion_resume_witness:
  "map q_id (getUnansweredBlockingQuestions
      (snd (addQuestion ''q1'' 0 ''Use REST or GraphQL?''
        (Some \<lparr>ao_priority = Some Blocking, ao_confidence = None, ao_context = None,
               ao_options = None, ao_subject = None\<rparr>) initialState))) = [''q1''] \<and>
   timers (answerQuestion \<lparr>has_onAnswer = True, has_onResumeWithAnswers = True\<rparr> 1 5 ''q1'' ''REST''
      (snd (addQuestion ''q1'' 0 ''Use REST or GraphQL?''
        (Some \<lparr>ao_priority = Some Blocking, ao_confidence = None, ao_context = None,
               ao_options = None, ao_subject = None\<rparr>) initialState)))
     = [OnResumeWithAnswers [''q1'' \<mapsto> ''REST'']] \<and>
   invoked (answerQuestion \<lparr>has_onAnswer = True, has_onResumeWithAnswers = True\<rparr> 1 5 ''q1'' ''REST''
      (snd (addQuestion ''q1'' 0 ''Use REST or GraphQL?''
        (Some \<lparr>ao_priority = Some Blocking, ao_confidence = None, ao_context = None,
               ao_options = None, ao_subject = None\<rparr>) initialState)))
     = [OnAnswer ''q1'' ''REST''] \<and>
   invoked (runTimers (answerQuestion \<lparr>has_onAnswer = True, has_onResumeWithAnswers = True\<rparr> 1 5 ''q1'' ''REST''
      (snd (addQuestion ''q1'' 0 ''Use REST or GraphQL?''
        (Some \<lparr>ao_priority = Some Blocking, ao_confidence = None, ao_context = None,
               ao_options = None, ao_subject = None\<rparr>) initialState))))
     = [OnAnswer ''q1'' ''REST'', OnResumeWithAnswers [''q1'' \<mapsto> ''REST'']]"
  using answerQuestion_resume [where opts = "\<lparr>has_onAnswer = True, has_onResumeWithAnswers = True\<rparr>"
      and runs = 1 and now = 5 and questionId = "''q1''" and answer = "''REST''"
      and s = "snd (addQuestion ''q1'' 0 ''Use REST or GraphQL?''
        (Some \<lparr>ao_priority = Some Blocking, ao_confidence = None, ao_context = None,
               ao_options = None, ao_subject = None\<rparr>) initialState)"]
  by (simp add: addQuestion_def initialState_def answerQuestion_def resumeCheck_def markAnswered_def
      stillBlocking_def collectAnswers_def runTimers_def getUnansweredBlockingQuestions_def)

theorem resume_with_empty_mapping_counterexample:
  "map q_id (getUnansweredBlockingQuestions
      (snd (addQuestion ''q1'' 0 ''Use REST or GraphQL?''
        (Some \<lparr>ao_priority = Some Blocking, ao_confidence = None, ao_context = None,
               ao_options = None, ao_subject = None\<rparr>) initialState))) = [''q1''] \<and>
   timers (answerQuestion \<lparr>has_onAnswer = True, has_onResumeWithAnswers = True\<rparr> 1 5 ''q1'' ''''
      (snd (addQuestion ''q1'' 0 ''Use REST or GraphQL?''
        (Some \<lparr>ao_priority = Some Blocking, ao_confidence = None, ao_context = None,
               ao_options = None, ao_subject = None\<rparr>) initialState)))
     = [OnResumeWithAnswers Map.empty] \<and>
   \<not> list_ex (\<lambda>q. q_status q = Answered \<and> truthy (q_answer q))
      (questions (answerQuestion \<lparr>has_onAnswer = True, has_onResumeWithAnswers = True\<rparr> 1 5 ''q1'' ''''
        (snd (addQuestion ''q1'' 0 ''Use REST or GraphQL?''
          (Some \<lparr>ao_priority = Some Blocking, ao_confidence = None, ao_context = None,
                 ao_options = None, ao_subject = None\<rparr>) initialState)))) \<and>
   timers (answerQuestion \<lparr>has_onAnswer = True, has_onResumeWithAnswers = True\<rparr> 2 5 ''q1'' ''REST''
      (snd (addQuestion ''q1'' 0 ''Use REST or GraphQL?''
        (Some \<lparr>ao_priority = Some Blocking, ao_confidence = None, ao_context = None,
               ao_options = None, ao_subject = None\<rparr>) initialState)))
     = [OnResumeWithAnswers [''q1'' \<mapsto> ''REST''], OnResumeWithAnswers [''q1'' \<mapsto> ''REST'']]"
  by (simp add: addQuestion_def initialState_def answerQuestion_def resumeCheck_def markAnswered_def
      stillBlocking_def collectAnswers_def getUnansweredBlockingQuestions_def numeral_2_eq_2)

subsection \<open>Status updates\<close>

text \<open>
  C2, as the code has it. \<^verbatim>\<open>answerQuestion\<close> and \<^verbatim>\<open>skipQuestion\<close> keep the
  length and order of the list and leave every question with another id as it is. A
  question with the id given becomes answered, with the answer and the time of the call,
  or skipped, with the time of the call and its earlier answer kept, whatever its status
  was: there is no test for pending. Neither operation produces status pending.
\<close>

theorem status_updates:
  fixes s :: HookState and opts :: UseQuestionsOptions and runs now :: nat and i a :: string
  defines "sa \<equiv> answerQuestion opts runs now i a s"
      and "sk \<equiv> skipQuestion now i s"
  shows "length (questions sa) = length (questions s) \<and>
         length (questions sk) = length (questions s) \<and>
         (\<forall>n<length (questions s).
            (if q_id (questions s ! n) = i
             then questions sa ! n =
                    (questions s ! n)\<lparr>q_status := Answered, q_answer := Some a, q_answeredAt := Some now\<rparr> \<and>
                  questions sk ! n =
                    (questions s ! n)\<lparr>q_status := Skipped, q_answeredAt := Some now\<rparr>
             else questions sa ! n = questions s ! n \<and> questions sk ! n = questions s ! n) \<and>
            (q_status (questions sa ! n) = Pending \<longrightarrow> q_status (questions s ! n) = Pending) \<and>
            (q_status (questions sk ! n) = Pending \<longrightarrow> q_status (questions s ! n) = Pending))"
  by (simp add: sa_def sk_def answerQuestion_def skipQuestion_def markAnswered_def Let_def)

theorem status_updates_witness:
  "map q_status (questions (snd (addQuestion ''q1'' 0 ''Use REST or GraphQL?'' None initialState))) = [Pending] \<and>
   map q_status (questions (answerQuestion \<lparr>has_onAnswer = False, has_onResumeWithAnswers = False\<rparr> 1 4 ''q1'' ''REST''
      (snd (addQuestion ''q1'' 0 ''Use REST or GraphQL?'' None initialState)))) = [Answered] \<and>
   map q_status (questions (skipQuestion 4 ''q1''
      (snd (addQuestion ''q1'' 0 ''Use REST or GraphQL?'' None initialState)))) = [Skipped]"
  using status_updates [where opts = "\<lparr>has_onAnswer = False, has_onResumeWithAnswers = False\<rparr>"
      and runs = 1 and now = 4 and i = "''q1''" and a = "''REST''"
      and s = "snd (addQuestion ''q1'' 0 ''Use REST or GraphQL?'' None initialState)"]
  by (simp add: addQuestion_def initialState_def answerQuestion_def resumeCheck_def markAnswered_def
      skipQuestion_def stillBlocking_def)

theorem answer_after_skip_counterexample:
  "map q_status (questions (skipQuestion 1 ''q1''
      (snd (addQuestion ''q1'' 0 ''Use REST or GraphQL?'' None initialState)))) = [Skipped] \<and>
   map (\<lambda>q. (q_status q, q_answer q, q_answeredAt q))
     (questions (answerQuestion \<lparr>has_onAnswer = False, has_onResumeWithAnswers = False\<rparr> 1 2 ''q1'' ''REST''
       (skipQuestion 1 ''q1''
         (snd (addQuestion ''q1'' 0 ''Use REST or GraphQL?'' None initialState)))))
     = [(Answered, Some ''REST'', Some 2)] \<and>
   map (\<lambda>q. (q_status q, q_answer q, q_answeredAt q))
     (questions (skipQuestion 3 ''q1''
       (answerQuestion \<lparr>has_onAnswer = False, has_onResumeWithAnswers = False\<rparr> 1 2 ''q1'' ''REST''
         (skipQuestion 1 ''q1''
           (snd (addQuestion ''q1'' 0 ''Use REST or GraphQL?'' None initialState))))))
     = [(Skipped, Some ''REST'', Some 3)]"
  by (simp add: addQuestion_def initialState_def answerQuestion_def resumeCheck_def markAnswered_def
      skipQuestion_def stillBlocking_def)

subsection \<open>Repeated ids\<close>

text \<open>
  C3. A batch that names the id \<^verbatim>\<open>a\<close> twice, added to the empty set, leaves two
  questions with that id: the filter of \<^verbatim>\<open>addQuestionsFromInterrupt\<close> compares the new
  questions with the previous ones only.
\<close>

theorem interrupt_batch_duplicate_ids:
  "map (\<lambda>q. (q_id q, q_text q))
     (questions (addQuestionsFromInterrupt (\<lambda>i. ''generated'') 0
        \<lparr>data_questions = Some
           [\<lparr>raw_id = Some ''a'', raw_text = ''first'', raw_priority = None, raw_confidence = None,
              raw_context = None, raw_options = None, raw_subject = None, raw_createdAt = None\<rparr>,
            \<lparr>raw_id = Some ''a'', raw_text = ''second'', raw_priority = None, raw_confidence = None,
              raw_context = None, raw_options = None, raw_subject = None, raw_createdAt = None\<rparr>]\<rparr>
        initialState))
   = [(''a'', ''first''), (''a'', ''second'')]"
  by (simp add: addQuestionsFromInterrupt_def initialState_def fromRaw_def or_else_def)

subsection \<open>The blocking predicate and unknown ids\<close>

text \<open>
  C9. \<^verbatim>\<open>canProceed()\<close> is true exactly when no question of the set is both pending and
  blocking; its value is that of the set reduced to its pending blocking questions, so
  answered and skipped blocking questions and pending questions of another priority do not
  count.
\<close>

theorem canProceed_iff_blocking:
  "(canProceed s \<longleftrightarrow>
      \<not> (\<exists>q\<in>set (questions s). q_status q = Pending \<and> q_priority q = Blocking)) \<and>
   canProceed s =
     canProceed (s\<lparr>questions :=
       filter (\<lambda>q. q_status q = Pending \<and> q_priority q = Blocking) (questions s)\<rparr>)"
  by (auto simp: canProceed_def list_ex_iff)

theorem canProceed_iff_blocking_witness:
  "\<not> canProceed (snd (addQuestion ''q2'' 1 ''Cache it?''
        (Some \<lparr>ao_priority = Some NiceToHave, ao_confidence = None, ao_context = None,
               ao_options = None, ao_subject = None\<rparr>)
        (snd (addQuestion ''q1'' 0 ''Use REST or GraphQL?''
          (Some \<lparr>ao_priority = Some Blocking, ao_confidence = None, ao_context = None,
                 ao_options = None, ao_subject = None\<rparr>) initialState)))) \<and>
   canProceed (skipQuestion 2 ''q1'' (snd (addQuestion ''q2'' 1 ''Cache it?''
        (Some \<lparr>ao_priority = Some NiceToHave, ao_confidence = None, ao_context = None,
               ao_options = None, ao_subject = None\<rparr>)
        (snd (addQuestion ''q1'' 0 ''Use REST or GraphQL?''
          (Some \<lparr>ao_priority = Some Blocking, ao_confidence = None, ao_context = None,
                 ao_options = None, ao_subject = None\<rparr>) initialState)))))"
  using canProceed_iff_blocking [of "snd (addQuestion ''q2'' 1 ''Cache it?''
        (Some \<lparr>ao_priority = Some NiceToHave, ao_confidence = None, ao_context = None,
               ao_options = None, ao_subject = None\<rparr>)
        (snd (addQuestion ''q1'' 0 ''Use REST or GraphQL?''
          (Some \<lparr>ao_priority = Some Blocking, ao_confidence = None, ao_context = None,
                 ao_options = None, ao_subject = None\<rparr>) initialState)))"]
    canProceed_iff_blocking [of "skipQuestion 2 ''q1'' (snd (addQuestion ''q2'' 1 ''Cache it?''
        (Some \<lparr>ao_priority = Some NiceToHave, ao_confidence = None, ao_context = None,
               ao_options = None, ao_subject = None\<rparr>)
        (snd (addQuestion ''q1'' 0 ''Use REST or GraphQL?''
          (Some \<lparr>ao_priority = Some Blocking, ao_confidence = None, ao_context = None,
                 ao_options = None, ao_subject = None\<rparr>) initialState))))"]
  by (simp add: addQuestion_def skipQuestion_def initialState_def)

text \<open>
  C10. When no question has the id given, \<^verbatim>\<open>answerQuestion\<close> and
  \<^verbatim>\<open>skipQuestion\<close> leave the question list as it was: nothing is added and no question
  is changed.
\<close>

theorem unknown_id_frame:
  assumes "questionId \<notin> set (map q_id (questions s))"
  shows "questions (answerQuestion opts runs now questionId answer s) = questions s \<and>
         questions (skipQuestion now questionId s) = questions s"
  using assms
  by (simp add: answerQuestion_def skipQuestion_def markAnswered_def Let_def map_if_unchanged)

theorem unknown_id_frame_witness:
  "''zz'' \<notin> set (map q_id (questions (snd (addQuestion ''q1'' 0 ''Use REST or GraphQL?'' None initialState)))) \<and>
   questions (answerQuestion \<lparr>has_onAnswer = True, has_onResumeWithAnswers = True\<rparr> 1 3 ''zz'' ''REST''
      (snd (addQuestion ''q1'' 0 ''Use REST or GraphQL?'' None initialState)))
     = questions (snd (addQuestion ''q1'' 0 ''Use REST or GraphQL?'' None initialState)) \<and>
   questions (skipQuestion 3 ''zz'' (snd (addQuestion ''q1'' 0 ''Use REST or GraphQL?'' None initialState)))
     = questions (snd (addQuestion ''q1'' 0 ''Use REST or GraphQL?'' None initialState))"
proof -
  have h: "''zz'' \<notin> set (map q_id (questions (snd (addQuestion ''q1'' 0 ''Use REST or GraphQL?'' None initialState))))"
    by (simp add: addQuestion_def initialState_def)
  from unknown_id_frame [OF h] h show ?thesis by blast
qed

section \<open>Properties of the session controller\<close>

lemma haltPoints_append: "haltPoints (xs @ ys) = haltPoints xs @ haltPoints ys"
  by (induction xs rule: haltPoints.induct) simp_all

lemma haltPoints_revalidate: "haltPoints (revalidate env) = []"
  by (simp add: revalidate_def)

lemma runSingleStep_never_revalidates:
  "HistoryRevalidate \<notin> set (runSingleStep env messages checkpoint isRerunningSubagent optimisticMessages)"
  by (simp add: runSingleStep_def split: option.splits)

lemma siblings_revalidate:
  assumes "env_onHistoryRevalidate env"
  shows "last (sendMessage env uuid content) = HistoryRevalidate"
    and "last (continueStream env hasTaskToolCall) = HistoryRevalidate"
    and "last (resumeInterrupt env v) = HistoryRevalidate"
    and "last (markCurrentThreadAsResolved env) = HistoryRevalidate"
  using assms
  by (simp_all add: sendMessage_def continueStream_def resumeInterrupt_def
      markCurrentThreadAsResolved_def revalidate_def Let_def)

text \<open>
  C7. With the refresh callback registered, \<^verbatim>\<open>runSingleStep\<close> submits and returns
  without calling it, while \<^verbatim>\<open>sendMessage\<close> in the same environment ends with the
  call. (The lemmas above: \<^verbatim>\<open>runSingleStep\<close> never calls it; the four other
  operations always end with it.)
\<close>

theorem runSingleStep_no_refresh:
  "runSingleStep \<lparr>env_config = None, env_onHistoryRevalidate = True, env_threadId = Some ''t1''\<rparr>
      [\<lparr>msg_id = Some ''m1'', msg_type = ''human'', msg_content = CString ''hi'',
         msg_tool_calls = None, msg_tool_call_id = None, msg_name = None\<rparr>] None None None
   = [Submit (Values [\<lparr>msg_id = Some ''m1'', msg_type = ''human'', msg_content = CString ''hi'',
         msg_tool_calls = None, msg_tool_call_id = None, msg_name = None\<rparr>])
        (noOptions\<lparr>so_config := None, so_interruptBefore := Some [''tools''],
                    so_streamSubgraphs := Some True\<rparr>) :: unit Effect] \<and>
   sendMessage \<lparr>env_config = None, env_onHistoryRevalidate = True, env_threadId = Some ''t1''\<rparr>
      ''m1'' ''hi''
   = [Submit (Values [\<lparr>msg_id = Some ''m1'', msg_type = ''human'', msg_content = CString ''hi'',
         msg_tool_calls = None, msg_tool_call_id = None, msg_name = None\<rparr>])
        (noOptions\<lparr>so_optimisticValues := Some (AppendMessages
             [\<lparr>msg_id = Some ''m1'', msg_type = ''human'', msg_content = CString ''hi'',
               msg_tool_calls = None, msg_tool_call_id = None, msg_name = None\<rparr>]),
           so_config := Some (emptyConfig\<lparr>cfg_recursion_limit := Some 100\<rparr>),
           so_streamSubgraphs := Some True\<rparr>) :: unit Effect,
      HistoryRevalidate]"
  by (simp add: runSingleStep_def sendMessage_def revalidate_def withRecursionLimit_def Let_def)

text \<open>
  C8. \<^verbatim>\<open>runSingleStep\<close> without a checkpoint submits with
  \<^verbatim>\<open>interruptBefore: ["tools"]\<close>; with a checkpoint it submits with
  \<^verbatim>\<open>interruptAfter: ["tools"]\<close> when \<^verbatim>\<open>isRerunningSubagent\<close> is true and with
  \<^verbatim>\<open>interruptBefore\<close> otherwise; \<^verbatim>\<open>continueStream\<close> submits with
  \<^verbatim>\<open>interruptAfter\<close> exactly when \<^verbatim>\<open>hasTaskToolCall\<close> is true and with
  \<^verbatim>\<open>interruptBefore\<close> otherwise. Each submits once and sets only one of the two.
\<close>

theorem halt_point_selection:
  "haltPoints (runSingleStep env messages None isRerunningSubagent optimisticMessages
       :: 'v Effect list) = [(Some [''tools''], None)] \<and>
   haltPoints (runSingleStep env messages (Some cp) isRerunningSubagent optimisticMessages
       :: 'v Effect list)
     = [if isRerunningSubagent = Some True then (None, Some [''tools''])
        else (Some [''tools''], None)] \<and>
   haltPoints (continueStream env hasTaskToolCall :: 'v Effect list)
     = [if hasTaskToolCall = Some True then (None, Some [''tools''])
        else (Some [''tools''], None)]"
  by (simp add: runSingleStep_def continueStream_def haltPoints_append haltPoints_revalidate
      noOptions_def Let_def split: option.splits)

theorem halt_point_selection_witness:
  "haltPoints (runSingleStep \<lparr>env_config = None, env_onHistoryRevalidate = True, env_threadId = None\<rparr>
       [] (Some \<lparr>cp_thread_id = ''t1'', cp_checkpoint_ns = '''', cp_checkpoint_id = Some ''c1''\<rparr>)
       (Some True) None :: unit Effect list) = [(None, Some [''tools''])] \<and>
   haltPoints (runSingleStep \<lparr>env_config = None, env_onHistoryRevalidate = True, env_threadId = None\<rparr>
       [] (Some \<lparr>cp_thread_id = ''t1'', cp_checkpoint_ns = '''', cp_checkpoint_id = Some ''c1''\<rparr>)
       (Some False) None :: unit Effect list) = [(Some [''tools''], None)] \<and>
   haltPoints (runSingleStep \<lparr>env_config = None, env_onHistoryRevalidate = True, env_threadId = None\<rparr>
       [] None None None :: unit Effect list) = [(Some [''tools''], None)] \<and>
   haltPoints (continueStream \<lparr>env_config = None, env_onHistoryRevalidate = True, env_threadId = None\<rparr>
       (Some True) :: unit Effect list) = [(None, Some [''tools''])] \<and>
   haltPoints (continueStream \<lparr>env_config = None, env_onHistoryRevalidate = True, env_threadId = None\<rparr>
       None :: unit Effect list) = [(Some [''tools''], None)]"
  using halt_point_selection [where ?'v = unit
      and env = "\<lparr>env_config = None, env_onHistoryRevalidate = True, env_threadId = None\<rparr>"
      and messages = "[]" and isRerunningSubagent = "Some True" and optimisticMessages = None
      and cp = "\<lparr>cp_thread_id = ''t1'', cp_checkpoint_ns = '''', cp_checkpoint_id = Some ''c1''\<rparr>"
      and hasTaskToolCall = "Some True"]
    halt_point_selection [where ?'v = unit
      and env = "\<lparr>env_config = None, env_onHistoryRevalidate = True, env_threadId = None\<rparr>"
      and messages = "[]" and isRerunningSubagent = "Some False" and optimisticMessages = None
      and cp = "\<lparr>cp_thread_id = ''t1'', cp_checkpoint_ns = '''', cp_checkpoint_id = Some ''c1''\<rparr>"
      and hasTaskToolCall = None]
    halt_point_selection [where ?'v = unit
      and env = "\<lparr>env_config = None, env_onHistoryRevalidate = True, env_threadId = None\<rparr>"
      and messages = "[]" and isRerunningSubagent = None and optimisticMessages = None
      and cp = "\<lparr>cp_thread_id = ''t1'', cp_checkpoint_ns = '''', cp_checkpoint_id = Some ''c1''\<rparr>"
      and hasTaskToolCall = None]
  by simp

section \<open>Properties of the demultiplexer\<close>

subsection \<open>One call of track\<close>

text \<open>The id under which \<open>track\<close> files a message.\<close>

lemma Map_get_track:
  "Map_get (subagentMessages (track k fb m s)) k' =
     (if k' = k
      then Some (logOf s k @
             (if Some (or_else (msg_id m) fb) \<in> msg_id ` set (logOf s k) then []
              else [m\<lparr>msg_id := Some (or_else (msg_id m) fb)\<rparr>]))
      else Map_get (subagentMessages s) k')"
  by (auto simp: track_def Let_def Map_has_def Map_get_def Map_set_def logOf_def
      AList.update_conv' list_ex_iff image_iff split: option.splits)

lemma logOf_track:
  "logOf (track k fb m s) k' =
     (if k' = k
      then logOf s k @
             (if Some (or_else (msg_id m) fb) \<in> msg_id ` set (logOf s k) then []
              else [m\<lparr>msg_id := Some (or_else (msg_id m) fb)\<rparr>])
      else logOf s k')"
  unfolding logOf_def [of "track k fb m s"] Map_get_track
  by (simp add: logOf_def)

lemma ids_track:
  "subagentMessageIds (track k fb m s) = insert (or_else (msg_id m) fb) (subagentMessageIds s)"
  by (simp add: track_def Let_def)

lemma keys_track:
  "map fst (subagentMessages (track k fb m s)) =
     (if k \<in> set (map fst (subagentMessages s)) then map fst (subagentMessages s)
      else map fst (subagentMessages s) @ [k])"
  by (auto simp: track_def Let_def Map_has_def Map_get_def Map_set_def AList.update_keys
      map_of_eq_None_iff)


lemma applyTracks_Nil: "applyTracks [] s = s"
  by (simp add: applyTracks_def)

lemma applyTracks_Cons: "applyTracks ((k, fb, m) # ts) s = applyTracks ts (track k fb m s)"
  by (simp add: applyTracks_def)

lemma applyTracks_append: "applyTracks (ts @ us) s = applyTracks us (applyTracks ts s)"
  by (simp add: applyTracks_def)

lemma trackAll_applyTracks:
  "trackAll fb k idx msgs s = applyTracks (tracksOf fb k idx msgs) s"
  by (induction msgs arbitrary: idx s) (simp_all add: tracksOf_def applyTracks_def)

lemma fold_trackAll_applyTracks:
  "fold (\<lambda>msgs. trackAll fb k 0 msgs) srcs s = applyTracks (concat (map (tracksOf fb k 0) srcs)) s"
  by (induction srcs arbitrary: s) (simp_all add: trackAll_applyTracks applyTracks_append applyTracks_Nil)

lemma onEvent_applyTracks: "onEvent now e s = applyTracks (eventTracks now e) s"
proof (cases e)
  case (UpdateEvent d ns)
  then show ?thesis
    by (auto simp: onEvent_def onUpdateEvent_def eventTracks_def eventNamespace_def Let_def
        trackAll_applyTracks applyTracks_Nil split: option.splits list.splits)
next
  case (DebugEvent d ns)
  then show ?thesis
    by (auto simp: onEvent_def onDebugEvent_def eventTracks_def eventNamespace_def Let_def
        fold_trackAll_applyTracks applyTracks_append applyTracks_Nil applyTracks_Cons
        split: option.splits list.splits)
qed

lemma runEvents_applyTracks:
  "runEvents evs s = applyTracks (concat (map (\<lambda>(now, e). eventTracks now e) evs)) s"
  by (induction evs arbitrary: s)
     (auto simp: runEvents_def onEvent_applyTracks applyTracks_append applyTracks_Nil)

lemma runEvents_append: "runEvents (evs @ evs') s = runEvents evs' (runEvents evs s)"
  by (simp add: runEvents_def)

lemma tracksOf_messages: "map (\<lambda>t. snd (snd t)) (tracksOf fb k idx msgs) = msgs"
  by (induction msgs arbitrary: idx) (simp_all add: tracksOf_def)

lemma tracksOf_keys: "t \<in> set (tracksOf fb k idx msgs) \<Longrightarrow> fst t = k"
  by (auto simp: tracksOf_def)

lemma eventTracks_key:
  assumes "t \<in> set (eventTracks now e)"
  shows "\<exists>seg rest. eventNamespace e = Some (seg # rest) \<and> fst t = toolCallIdOf seg"
  using assms
  by (cases e)
     (auto simp: eventTracks_def Let_def eventNamespace_def dest: tracksOf_keys
        split: option.splits list.splits)

lemma eventTracks_messages:
  assumes "eventNamespace e = Some (seg # rest)"
  shows "map (\<lambda>t. snd (snd t)) (eventTracks now e) = eventMessages e"
proof (cases e)
  case (UpdateEvent d ns)
  with assms show ?thesis
    by (simp add: eventTracks_def eventMessages_def eventNamespace_def Let_def tracksOf_messages
        split: option.splits)
next
  case (DebugEvent d ns)
  have "map (\<lambda>t. snd (snd t)) (concat (map (tracksOf fb k 0) srcs)) = concat srcs"
    for fb k and srcs :: "'a Message list list"
    by (induction srcs) (simp_all add: tracksOf_messages)
  with assms DebugEvent show ?thesis
    by (simp add: eventTracks_def eventMessages_def eventNamespace_def Let_def
        split: option.splits)
qed

lemma eventTracks_no_namespace:
  assumes "eventNamespace e = None \<or> eventNamespace e = Some []"
  shows "eventTracks now e = []"
  using assms by (auto simp: eventTracks_def)

subsection \<open>Sequences of calls\<close>

lemma logOf_track_ext:
  "\<exists>ext. logOf (track k fb m s) k' = logOf s k' @ ext \<and>
         (ext = [] \<or> (k' = k \<and> ext = [filed (k, fb, m)] \<and>
            msg_id (filed (k, fb, m)) \<notin> msg_id ` set (logOf s k')))"
  by (simp add: logOf_track filed_def)

lemma logOf_applyTracks_ext:
  "\<exists>ext. logOf (applyTracks ts s) k' = logOf s k' @ ext \<and>
         (\<forall>x\<in>set ext. \<exists>t\<in>set ts. fst t = k' \<and> x = filed t)"
proof (induction ts arbitrary: s)
  case Nil
  show ?case by (simp add: applyTracks_Nil)
next
  case (Cons t ts)
  obtain k fb m where t: "t = (k, fb, m)" by (cases t)
  from logOf_track_ext [of k fb m s k'] obtain e1
    where e1: "logOf (track k fb m s) k' = logOf s k' @ e1"
      and e1': "e1 = [] \<or> (k' = k \<and> e1 = [filed (k, fb, m)])" by blast
  from Cons.IH [of "track k fb m s"] obtain e2
    where e2: "logOf (applyTracks ts (track k fb m s)) k' = logOf (track k fb m s) k' @ e2"
      and e2': "\<forall>x\<in>set e2. \<exists>t\<in>set ts. fst t = k' \<and> x = filed t" by blast
  have "logOf (applyTracks (t # ts) s) k' = logOf s k' @ (e1 @ e2)"
    by (simp add: t applyTracks_Cons e1 e2)
  moreover have "\<forall>x\<in>set (e1 @ e2). \<exists>u\<in>set (t # ts). fst u = k' \<and> x = filed u"
    using e1' e2' t by auto
  ultimately show ?case by blast
qed

lemma distinct_track:
  assumes "distinct (map msg_id (logOf s k'))"
  shows "distinct (map msg_id (logOf (track k fb m s) k'))"
  using assms by (cases "k' = k") (simp_all add: logOf_track)

lemma distinct_applyTracks:
  assumes "distinct (map msg_id (logOf s k'))"
  shows "distinct (map msg_id (logOf (applyTracks ts s) k'))"
  using assms
proof (induction ts arbitrary: s)
  case Nil
  then show ?case by (simp add: applyTracks_Nil)
next
  case (Cons t ts)
  obtain k fb m where t: "t = (k, fb, m)" by (cases t)
  from Cons.prems have "distinct (map msg_id (logOf (track k fb m s) k'))"
    by (rule distinct_track)
  from Cons.IH [OF this] show ?case by (simp add: t applyTracks_Cons)
qed

lemma filed_track:
  "msg_id (filed (k, fb, m)) \<in> msg_id ` set (logOf (track k fb m s) k)"
  by (simp add: logOf_track filed_def)

lemma id_kept:
  assumes "j \<in> msg_id ` set (logOf s k)"
  shows "j \<in> msg_id ` set (logOf (applyTracks ts s) k)"
proof -
  from logOf_applyTracks_ext [of ts s k] obtain ext
    where "logOf (applyTracks ts s) k = logOf s k @ ext" by blast
  with assms show ?thesis by auto
qed

lemma filed_applyTracks:
  assumes "t \<in> set ts"
  shows "msg_id (filed t) \<in> msg_id ` set (logOf (applyTracks ts s) (fst t))"
  using assms
proof (induction ts arbitrary: s)
  case Nil
  then show ?case by simp
next
  case (Cons u ts)
  obtain k fb m where u: "u = (k, fb, m)" by (cases u)
  show ?case
  proof (cases "t = u")
    case True
    have "msg_id (filed t) \<in> msg_id ` set (logOf (track k fb m s) (fst t))"
      using True u filed_track [of k fb m s] by simp
    then show ?thesis
      unfolding u applyTracks_Cons by (rule id_kept)
  next
    case False
    with Cons.prems have "t \<in> set ts" by simp
    from Cons.IH [OF this] show ?thesis by (simp add: u applyTracks_Cons)
  qed
qed

lemma Map_get_applyTracks_other:
  assumes "\<forall>t\<in>set ts. fst t \<noteq> k'"
  shows "Map_get (subagentMessages (applyTracks ts s)) k' = Map_get (subagentMessages s) k'"
  using assms
proof (induction ts arbitrary: s)
  case Nil
  show ?case by (simp add: applyTracks_Nil)
next
  case (Cons t ts)
  obtain k fb m where t: "t = (k, fb, m)" by (cases t)
  with Cons.prems have "k \<noteq> k'" and rest: "\<forall>t\<in>set ts. fst t \<noteq> k'" by auto
  from Cons.IH [OF rest, of "track k fb m s"] \<open>k \<noteq> k'\<close>
  show ?case by (simp add: t applyTracks_Cons Map_get_track)
qed

lemma Map_get_present_track:
  assumes "Map_get (subagentMessages s) k' \<noteq> None"
  shows "Map_get (subagentMessages (track k fb m s)) k' \<noteq> None"
  using assms by (simp add: Map_get_track)

lemma Map_get_present:
  assumes "Map_get (subagentMessages s) k' \<noteq> None"
  shows "Map_get (subagentMessages (applyTracks ts s)) k' \<noteq> None"
  using assms
proof (induction ts arbitrary: s)
  case Nil
  then show ?case by (simp add: applyTracks_Nil)
next
  case (Cons t ts)
  obtain k fb m where t: "t = (k, fb, m)" by (cases t)
  from Cons.prems have "Map_get (subagentMessages (track k fb m s)) k' \<noteq> None"
    by (rule Map_get_present_track)
  from Cons.IH [OF this] show ?case by (simp add: t applyTracks_Cons)
qed

lemma Map_get_logOf:
  "Map_get (subagentMessages s) k \<noteq> None \<longleftrightarrow> Map_get (subagentMessages s) k = Some (logOf s k)"
  by (auto simp: logOf_def)

lemma logOf_nonempty_present:
  assumes "logOf s k \<noteq> []"
  shows "Map_get (subagentMessages s) k = Some (logOf s k)"
  using assms by (auto simp: logOf_def split: option.splits)

lemma Map_get_grows:
  assumes "Map_get (subagentMessages s) k' = Some lg"
  shows "\<exists>ext. Map_get (subagentMessages (applyTracks ts s)) k' = Some (lg @ ext) \<and>
           (\<forall>x\<in>set ext. \<exists>t\<in>set ts. fst t = k' \<and> x = filed t)"
proof -
  from assms have l: "logOf s k' = lg" by (simp add: logOf_def)
  from assms have "Map_get (subagentMessages (applyTracks ts s)) k' \<noteq> None"
    by (intro Map_get_present) simp
  then have g: "Map_get (subagentMessages (applyTracks ts s)) k' = Some (logOf (applyTracks ts s) k')"
    by (simp only: Map_get_logOf)
  from logOf_applyTracks_ext [of ts s k'] l g show ?thesis by auto
qed

lemma ids_applyTracks: "subagentMessageIds s \<subseteq> subagentMessageIds (applyTracks ts s)"
proof (induction ts arbitrary: s)
  case Nil
  show ?case by (simp add: applyTracks_Nil)
next
  case (Cons t ts)
  obtain k fb m where t: "t = (k, fb, m)" by (cases t)
  have "subagentMessageIds s \<subseteq> subagentMessageIds (track k fb m s)"
    by (auto simp: ids_track)
  with Cons.IH [of "track k fb m s"] show ?case
    by (auto simp: t applyTracks_Cons)
qed

lemma keys_applyTracks:
  "\<exists>new. map fst (subagentMessages (applyTracks ts s)) = map fst (subagentMessages s) @ new"
proof (induction ts arbitrary: s)
  case Nil
  show ?case by (simp add: applyTracks_Nil)
next
  case (Cons t ts)
  obtain k fb m where t: "t = (k, fb, m)" by (cases t)
  obtain n1 where n1: "map fst (subagentMessages (track k fb m s)) = map fst (subagentMessages s) @ n1"
    by (cases "k \<in> set (map fst (subagentMessages s))") (simp_all add: keys_track)
  from Cons.IH [of "track k fb m s"] obtain n2
    where "map fst (subagentMessages (applyTracks ts (track k fb m s))) =
             map fst (subagentMessages (track k fb m s)) @ n2" by blast
  with n1 show ?case by (simp add: t applyTracks_Cons)
qed

lemma count_one:
  assumes "distinct (map f xs)" and "y \<in> f ` set xs"
  shows "length (filter (\<lambda>x. f x = y) xs) = 1"
  using assms
proof (induction xs)
  case Nil
  then show ?case by simp
next
  case (Cons x xs)
  show ?case
  proof (cases "f x = y")
    case True
    with Cons.prems have "y \<notin> f ` set xs" by auto
    then have "filter (\<lambda>x. f x = y) xs = []" by (auto simp: filter_empty_conv)
    with True show ?thesis by simp
  next
    case False
    with Cons show ?thesis by auto
  qed
qed

lemma logOf_emptyDemux: "logOf emptyDemux k = []"
  by (simp add: logOf_def emptyDemux_def Map_get_def)

lemma carried_track:
  assumes ns: "eventNamespace e = Some (seg # rest)"
    and m: "m \<in> set (eventMessages e)"
  shows "\<exists>t\<in>set (eventTracks now e). fst t = toolCallIdOf seg \<and> snd (snd t) = m"
proof -
  from m have "m \<in> set (map (\<lambda>t. snd (snd t)) (eventTracks now e))"
    by (simp only: eventTracks_messages [OF ns])
  then obtain t where t: "t \<in> set (eventTracks now e)" and tm: "snd (snd t) = m" by auto
  from eventTracks_key [OF t] ns have "fst t = toolCallIdOf seg" by auto
  with t tm show ?thesis by blast
qed

lemma filed_id:
  "msg_id (filed t) = Some (or_else (msg_id (snd (snd t))) (fst (snd t)))"
  by (cases t) (simp add: filed_def)

lemma filed_truthy:
  assumes "msg_id (snd (snd t)) = Some i" and "i \<noteq> []"
  shows "msg_id (filed t) = Some i"
  using assms by (simp add: filed_id or_else_def)

lemma toolCallIdMatch_iff:
  "toolCallIdMatch seg = Some g \<longleftrightarrow>
     seg = ''tools:'' @ g \<and> g \<noteq> [] \<and> \<not> has_line_terminator g"
proof
  assume "toolCallIdMatch seg = Some g"
  then have a: "take 6 seg = ''tools:''" and b: "drop 6 seg = g" and c: "g \<noteq> []"
    and d: "\<not> has_line_terminator g"
    by (auto simp: toolCallIdMatch_def split: if_splits)
  have "seg = take 6 seg @ drop 6 seg" by simp
  with a b have "seg = ''tools:'' @ g" by simp
  with c d show "seg = ''tools:'' @ g \<and> g \<noteq> [] \<and> \<not> has_line_terminator g" by simp
next
  assume "seg = ''tools:'' @ g \<and> g \<noteq> [] \<and> \<not> has_line_terminator g"
  then show "toolCallIdMatch seg = Some g" by (simp add: toolCallIdMatch_def)
qed

lemma toolCallIdOf_cases:
  "toolCallIdOf seg =
     (if \<exists>g. seg = ''tools:'' @ g \<and> g \<noteq> [] \<and> \<not> has_line_terminator g
      then drop 6 seg else seg)"
proof (cases "toolCallIdMatch seg")
  case None
  then have "\<not> (\<exists>g. seg = ''tools:'' @ g \<and> g \<noteq> [] \<and> \<not> has_line_terminator g)"
    using toolCallIdMatch_iff [of seg] by auto
  then have "(if \<exists>g. seg = ''tools:'' @ g \<and> g \<noteq> [] \<and> \<not> has_line_terminator g
      then drop 6 seg else seg) = seg" by (simp only: if_False)
  moreover from None have "toolCallIdOf seg = seg" by (simp add: toolCallIdOf_def)
  ultimately show ?thesis by simp
next
  case (Some g)
  then have "seg = ''tools:'' @ g \<and> g \<noteq> [] \<and> \<not> has_line_terminator g"
    by (simp add: toolCallIdMatch_iff)
  then have ex: "\<exists>g. seg = ''tools:'' @ g \<and> g \<noteq> [] \<and> \<not> has_line_terminator g"
    and dr: "drop 6 seg = g" by auto
  from ex have "(if \<exists>g. seg = ''tools:'' @ g \<and> g \<noteq> [] \<and> \<not> has_line_terminator g
      then drop 6 seg else seg) = drop 6 seg" by (simp only: if_True)
  moreover from Some dr have "toolCallIdOf seg = drop 6 seg" by (simp add: toolCallIdOf_def)
  ultimately show ?thesis by simp
qed

lemma onEvent_other_key:
  assumes ns: "eventNamespace e = Some (seg # rest)" and k: "k \<noteq> toolCallIdOf seg"
  shows "Map_get (subagentMessages (onEvent t e s)) k = Map_get (subagentMessages s) k"
proof -
  have "\<forall>u\<in>set (eventTracks t e). fst u \<noteq> k"
  proof
    fix u assume "u \<in> set (eventTracks t e)"
    from eventTracks_key [OF this] ns k show "fst u \<noteq> k" by auto
  qed
  then show ?thesis
    unfolding onEvent_applyTracks by (rule Map_get_applyTracks_other)
qed

lemma filed_shape:
  "\<exists>j. filed u = (snd (snd u))\<lparr>msg_id := Some j\<rparr> \<and>
       (truthy (msg_id (snd (snd u))) \<longrightarrow> msg_id (snd (snd u)) = Some j)"
  by (cases u) (auto simp: filed_def or_else_def truthy_iff)

lemma eventTracks_message:
  assumes "u \<in> set (eventTracks t e)"
  shows "snd (snd u) \<in> set (eventMessages e)"
proof -
  from eventTracks_key [OF assms] obtain seg rest
    where ns: "eventNamespace e = Some (seg # rest)" by blast
  from assms have "snd (snd u) \<in> set (map (\<lambda>t. snd (snd t)) (eventTracks t e))" by simp
  then show ?thesis by (simp only: eventTracks_messages [OF ns])
qed

lemmas demux_eval =
  runEvents_def onEvent_def sampleUpdate_def sampleDebug_def onUpdateEvent_def
  onDebugEvent_def updateMessages_def messageSources_def toolPayload_def List.map_filter_def
  toolCallIdOf_def toolCallIdMatch_def track_def Let_def Map_has_def Map_get_def Map_set_def
  emptyDemux_def or_else_def sampleAi_def sampleTool_def eventNamespace_def eventMessages_def
  logOf_def

subsection \<open>First arrival wins\<close>

text \<open>
  C4. Start from the empty store and let an event with a non-empty namespace carry a
  message with an id (a non-empty string: the callbacks treat an empty id as none). After
  that event the log of its tool-call id holds the id exactly once. Whatever events follow,
  update or debug, among them any that carry a message with the same id into the same
  tool-call id, the log is the earlier log with entries appended, it still holds the id
  exactly once, and no appended entry has that id: the later arrival is dropped and the
  first keeps its position. For every state and event, each log of the store is extended at
  its end, the keys keep their order with new ones appended, and the set of seen ids grows.
\<close>

theorem demux_first_arrival_wins:
  fixes pre later :: "(nat \<times> 'v StreamEvent) list" and e1 e :: "'v StreamEvent"
    and t1 t :: nat and s :: "'v Demux"
  defines "s1 \<equiv> runEvents (pre @ [(t1, e1)]) emptyDemux"
  defines "s2 \<equiv> runEvents later s1"
  assumes ns: "eventNamespace e1 = Some (seg # rest)"
    and m: "m \<in> set (eventMessages e1)"
    and mi: "msg_id m = Some i"
    and i: "i \<noteq> []"
  shows "(\<exists>l1 ext.
            Map_get (subagentMessages s1) (toolCallIdOf seg) = Some l1 \<and>
            Map_get (subagentMessages s2) (toolCallIdOf seg) = Some (l1 @ ext) \<and>
            length (filter (\<lambda>x. msg_id x = Some i) l1) = 1 \<and>
            length (filter (\<lambda>x. msg_id x = Some i) (l1 @ ext)) = 1 \<and>
            (\<forall>x\<in>set ext. msg_id x \<noteq> Some i)) \<and>
         (\<forall>k lg. Map_get (subagentMessages s) k = Some lg \<longrightarrow>
            (\<exists>ext. Map_get (subagentMessages (onEvent t e s)) k = Some (lg @ ext))) \<and>
         (\<exists>new. map fst (subagentMessages (onEvent t e s)) = map fst (subagentMessages s) @ new) \<and>
         subagentMessageIds s \<subseteq> subagentMessageIds (onEvent t e s)"
proof -
  let ?k = "toolCallIdOf seg"
  let ?T1 = "concat (map (\<lambda>(now, e). eventTracks now e) (pre @ [(t1, e1)]))"
  let ?T2 = "concat (map (\<lambda>(now, e). eventTracks now e) later)"
  have s1: "s1 = applyTracks ?T1 emptyDemux"
    by (simp only: s1_def runEvents_applyTracks)
  have s2: "s2 = applyTracks ?T2 s1"
    by (simp only: s2_def runEvents_applyTracks)
  from carried_track [OF ns m, of t1] obtain u
    where u: "u \<in> set (eventTracks t1 e1)" and uk: "fst u = ?k" and um: "snd (snd u) = m"
    by blast
  from um mi i have uid: "msg_id (filed u) = Some i" by (simp add: filed_truthy)
  from u have "u \<in> set ?T1" by auto
  from filed_applyTracks [OF this, of emptyDemux] uid uk s1
  have in1: "Some i \<in> msg_id ` set (logOf s1 ?k)" by simp
  have d1: "distinct (map msg_id (logOf s1 ?k))"
    unfolding s1 by (rule distinct_applyTracks) (simp add: logOf_emptyDemux)
  from in1 have "logOf s1 ?k \<noteq> []" by auto
  then have g1: "Map_get (subagentMessages s1) ?k = Some (logOf s1 ?k)"
    by (rule logOf_nonempty_present)
  from Map_get_grows [OF g1, of ?T2] s2 obtain ext
    where g2: "Map_get (subagentMessages s2) ?k = Some (logOf s1 ?k @ ext)" by auto
  then have l2: "logOf s2 ?k = logOf s1 ?k @ ext" by (simp add: logOf_def)
  have d2: "distinct (map msg_id (logOf s1 ?k @ ext))"
    using distinct_applyTracks [OF d1, of ?T2] s2 l2 by simp
  from in1 have in2: "Some i \<in> msg_id ` set (logOf s1 ?k @ ext)" by auto
  have c1: "length (filter (\<lambda>x. msg_id x = Some i) (logOf s1 ?k)) = 1"
    using d1 in1 by (rule count_one)
  have c2: "length (filter (\<lambda>x. msg_id x = Some i) (logOf s1 ?k @ ext)) = 1"
    using d2 in2 by (rule count_one)
  from c1 c2 have "filter (\<lambda>x. msg_id x = Some i) ext = []" by simp
  then have none: "\<forall>x\<in>set ext. msg_id x \<noteq> Some i" by (simp add: filter_empty_conv)
  have grow: "\<exists>ext. Map_get (subagentMessages (onEvent t e s)) k = Some (lg @ ext)"
    if "Map_get (subagentMessages s) k = Some lg" for k lg
    using Map_get_grows [OF that, of "eventTracks t e"] by (auto simp: onEvent_applyTracks)
  have keys: "\<exists>new. map fst (subagentMessages (onEvent t e s)) = map fst (subagentMessages s) @ new"
    by (simp only: onEvent_applyTracks keys_applyTracks)
  have ids: "subagentMessageIds s \<subseteq> subagentMessageIds (onEvent t e s)"
    by (simp only: onEvent_applyTracks ids_applyTracks)
  from g1 g2 c1 c2 none grow keys ids show ?thesis by blast
qed

theorem demux_first_arrival_wins_witness:
  "Map_get (subagentMessages
      (runEvents [(1, sampleUpdate [''tools:call_1''] [sampleAi])] emptyDemux)) ''call_1''
     = Some [sampleAi] \<and>
   Map_get (subagentMessages
      (runEvents [(2, sampleDebug [''tools:call_1''] [sampleAi])]
        (runEvents [(1, sampleUpdate [''tools:call_1''] [sampleAi])] emptyDemux))) ''call_1''
     = Some [sampleAi]"
proof -
  have ns: "eventNamespace (sampleUpdate [''tools:call_1''] [sampleAi]) = Some (''tools:call_1'' # [])"
    by (simp add: eventNamespace_def sampleUpdate_def)
  have m: "sampleAi \<in> set (eventMessages (sampleUpdate [''tools:call_1''] [sampleAi]))"
    by (simp add: eventMessages_def sampleUpdate_def updateMessages_def)
  have mi: "msg_id sampleAi = Some ''m1''" by (simp add: sampleAi_def)
  have i: "''m1'' \<noteq> []" by simp
  from demux_first_arrival_wins [OF ns m mi i, where pre = "[]" and ?t1.0 = 1
      and later = "[(2, sampleDebug [''tools:call_1''] [sampleAi])]"
      and s = emptyDemux and t = 1 and e = "sampleUpdate [''tools:call_1''] [sampleAi]"]
  show ?thesis by (simp add: demux_eval)
qed

subsection \<open>The key of an event\<close>

text \<open>
  C5. The key of an event is computed from its first namespace segment: what follows
  \<^verbatim>\<open>tools:\<close> when the segment is \<^verbatim>\<open>tools:\<close> and one or more characters, none a line
  terminator, and the whole segment otherwise. An event with no namespace or an empty one
  leaves the state as it is. An event with a namespace changes the log of its key only:
  every other entry of the store is as before, every entry appended to the log is a message
  of the event under its id (its own when it has one), and every message of the event has
  its id in the log. So \<^verbatim>\<open>tools:abc\<close> and \<^verbatim>\<open>tools:xyz\<close> have the keys \<^verbatim>\<open>abc\<close> and
  \<^verbatim>\<open>xyz\<close>, and an event under one does not touch the log of the other.
\<close>

theorem demux_keyed_by_first_segment:
  fixes e :: "'v StreamEvent" and s :: "'v Demux" and t :: nat
  defines "s' \<equiv> onEvent t e s"
  shows "toolCallIdOf seg =
           (if \<exists>g. seg = ''tools:'' @ g \<and> g \<noteq> [] \<and> \<not> has_line_terminator g
            then drop 6 seg else seg) \<and>
         (eventNamespace e = None \<or> eventNamespace e = Some [] \<longrightarrow> s' = s) \<and>
         (eventNamespace e = Some (seg # rest) \<longrightarrow>
            (\<forall>k. k \<noteq> toolCallIdOf seg \<longrightarrow>
               Map_get (subagentMessages s') k = Map_get (subagentMessages s) k) \<and>
            (\<exists>ext. logOf s' (toolCallIdOf seg) = logOf s (toolCallIdOf seg) @ ext \<and>
               (\<forall>x\<in>set ext. \<exists>m\<in>set (eventMessages e). \<exists>j.
                  x = m\<lparr>msg_id := Some j\<rparr> \<and> (truthy (msg_id m) \<longrightarrow> msg_id m = Some j))) \<and>
            (\<forall>m\<in>set (eventMessages e). \<exists>j.
               Some j \<in> msg_id ` set (logOf s' (toolCallIdOf seg)) \<and>
               (truthy (msg_id m) \<longrightarrow> msg_id m = Some j))) \<and>
         toolCallIdOf ''tools:abc'' = ''abc'' \<and> toolCallIdOf ''tools:xyz'' = ''xyz'' \<and>
         (eventNamespace e = Some [''tools:abc''] \<longrightarrow>
            Map_get (subagentMessages s') ''xyz'' = Map_get (subagentMessages s) ''xyz'') \<and>
         (eventNamespace e = Some [''tools:xyz''] \<longrightarrow>
            Map_get (subagentMessages s') ''abc'' = Map_get (subagentMessages s) ''abc'')"
proof -
  have abc: "toolCallIdOf ''tools:abc'' = ''abc''" and xyz: "toolCallIdOf ''tools:xyz'' = ''xyz''"
    by (simp_all add: toolCallIdOf_def toolCallIdMatch_def)
  have none: "s' = s" if "eventNamespace e = None \<or> eventNamespace e = Some []"
    using eventTracks_no_namespace [OF that, of t]
    by (simp add: s'_def onEvent_applyTracks applyTracks_Nil)
  have other: "Map_get (subagentMessages s') k = Map_get (subagentMessages s) k"
    if "eventNamespace e = Some (seg # rest)" "k \<noteq> toolCallIdOf seg" for k seg rest
    unfolding s'_def using that by (rule onEvent_other_key)
  have new: "\<exists>ext. logOf s' (toolCallIdOf seg) = logOf s (toolCallIdOf seg) @ ext \<and>
               (\<forall>x\<in>set ext. \<exists>m\<in>set (eventMessages e). \<exists>j.
                  x = m\<lparr>msg_id := Some j\<rparr> \<and> (truthy (msg_id m) \<longrightarrow> msg_id m = Some j))"
  proof -
    from logOf_applyTracks_ext [of "eventTracks t e" s "toolCallIdOf seg"] obtain ext
      where a: "logOf s' (toolCallIdOf seg) = logOf s (toolCallIdOf seg) @ ext"
        and b: "\<forall>x\<in>set ext. \<exists>u\<in>set (eventTracks t e). fst u = toolCallIdOf seg \<and> x = filed u"
      by (auto simp: s'_def onEvent_applyTracks)
    have "\<exists>m\<in>set (eventMessages e). \<exists>j.
            x = m\<lparr>msg_id := Some j\<rparr> \<and> (truthy (msg_id m) \<longrightarrow> msg_id m = Some j)"
      if "x \<in> set ext" for x
    proof -
      from b that obtain u where u: "u \<in> set (eventTracks t e)" and x: "x = filed u" by blast
      from eventTracks_message [OF u] filed_shape [of u] x show ?thesis by blast
    qed
    with a show ?thesis by blast
  qed
  have all: "\<exists>j. Some j \<in> msg_id ` set (logOf s' (toolCallIdOf seg)) \<and>
               (truthy (msg_id m) \<longrightarrow> msg_id m = Some j)"
    if ns: "eventNamespace e = Some (seg # rest)" and m: "m \<in> set (eventMessages e)" for m
  proof -
    from carried_track [OF ns m, of t] obtain u
      where u: "u \<in> set (eventTracks t e)" and uk: "fst u = toolCallIdOf seg"
        and um: "snd (snd u) = m" by blast
    from filed_applyTracks [OF u, of s] uk
    have "msg_id (filed u) \<in> msg_id ` set (logOf s' (toolCallIdOf seg))"
      by (simp add: s'_def onEvent_applyTracks)
    moreover from filed_shape [of u] um obtain j
      where "msg_id (filed u) = Some j" "truthy (msg_id m) \<longrightarrow> msg_id m = Some j" by auto
    ultimately show ?thesis by auto
  qed
  have mix1: "Map_get (subagentMessages s') ''xyz'' = Map_get (subagentMessages s) ''xyz''"
    if "eventNamespace e = Some [''tools:abc'']"
    using other [OF that] abc by simp
  have mix2: "Map_get (subagentMessages s') ''abc'' = Map_get (subagentMessages s) ''abc''"
    if "eventNamespace e = Some [''tools:xyz'']"
    using other [OF that] xyz by simp
  from toolCallIdOf_cases [of seg] none other [of seg rest] new all abc xyz mix1 mix2
  show ?thesis by blast
qed

theorem demux_keyed_by_first_segment_witness:
  "eventNamespace (sampleUpdate [''tools:abc''] [sampleAi]) = Some [''tools:abc''] \<and>
   subagentMessages (onEvent 2 (sampleDebug [''tools:xyz''] [sampleTool (CString ''result'')])
      (onEvent 1 (sampleUpdate [''tools:abc''] [sampleAi]) emptyDemux))
     = [(''abc'', [sampleAi]), (''xyz'', [sampleTool (CString ''result'')])] \<and>
   onEvent 3 (sampleUpdate [] [sampleAi]) emptyDemux = emptyDemux \<and>
   toolCallIdOf ''call_1'' = ''call_1'' \<and> toolCallIdOf ''tools:'' = ''tools:''"
  using demux_keyed_by_first_segment [where e = "sampleUpdate [''tools:abc''] [sampleAi]"
      and s = emptyDemux and t = 1 and seg = "''tools:abc''" and rest = "[]"]
    demux_keyed_by_first_segment [where e = "sampleUpdate [] [sampleAi]"
      and s = emptyDemux and t = 3 and seg = "''tools:''" and rest = "[]"]
  by (simp add: demux_eval)

section \<open>Properties of the reconstruction\<close>

lemma toolResults_fold:
  "Map_get (fold (\<lambda>msg acc. if msg_type msg = ''tool'' \<and> truthy (msg_tool_call_id msg)
                      then Map_set (the (msg_tool_call_id msg)) msg acc else acc) msgs acc0) i =
     (if answersTo (Some i) msgs = [] then Map_get acc0 i else Some (last (answersTo (Some i) msgs)))"
proof (induction msgs arbitrary: acc0)
  case Nil
  show ?case by (simp add: answersTo_def)
next
  case (Cons m msgs)
  show ?case
  proof (cases "msg_type m = ''tool'' \<and> truthy (msg_tool_call_id m)")
    case True
    then obtain j where j: "msg_tool_call_id m = Some j" by (cases "msg_tool_call_id m") auto
    show ?thesis
      using True j Cons.IH [of "Map_set j m acc0"]
      by (auto simp: answersTo_def Map_get_def Map_set_def AList.update_conv')
  next
    case False
    then show ?thesis
      using Cons.IH [of acc0] by (auto simp: answersTo_def)
  qed
qed

lemma Map_get_toolResults:
  "Map_get (toolResults msgs) i =
     (if answersTo (Some i) msgs = [] then None else Some (last (answersTo (Some i) msgs)))"
  unfolding toolResults_def toolResults_fold by (simp add: Map_get_def)

lemma answersTo_None: "answersTo None msgs = []"
  by (auto simp: answersTo_def filter_empty_conv truthy_iff)

lemma lookup_request:
  "(case i of Some j \<Rightarrow> Map_get (toolResults msgs) j | None \<Rightarrow> None) =
     (if answersTo i msgs = [] then None else Some (last (answersTo i msgs)))"
  by (cases i) (simp_all add: Map_get_toolResults answersTo_None)

lemma fold_push: "fold (\<lambda>tc acc'. acc' @ [f tc]) tcs acc = acc @ map f tcs"
  by (induction tcs arbitrary: acc) simp_all

lemma fold_calls:
  "fold (\<lambda>msg acc.
            if msg_type msg = ''ai''
            then (case msg_tool_calls msg of
                    Some tcs \<Rightarrow> fold (\<lambda>tc acc'. acc' @ [f tc]) tcs acc
                  | None \<Rightarrow> acc)
            else acc) msgs acc0 = acc0 @ map f (requestsOf msgs)"
  by (induction msgs arbitrary: acc0) (auto simp: requestsOf_def fold_push split: option.splits)

lemma subagentToolCalls_map:
  "subagentToolCalls stringify stringify2 msgs =
     map (toolCallOf stringify stringify2 (toolResults msgs)) (requestsOf msgs)"
  by (simp add: subagentToolCalls_def Let_def fold_calls)

text \<open>
  C6, as the code has it. The records rebuilt from the accumulated messages are the
  tool-call requests of the ai messages, one record each and in their order, with the
  request's id, its name (\<^verbatim>\<open>unknown\<close> when it has none) and its arguments; tool messages
  alone yield no record. A request is answered by the tool messages with its id as
  non-empty \<^verbatim>\<open>tool_call_id\<close>. With no answer the record is pending and has no result.
  With an answer it is completed, and its result comes from the content of the last answer:
  a string as it is; an array as its items joined by newlines, where an item is a string
  itself, the text of a block when that text is not empty, and the dump of the block when
  it has no text or an empty one; another value as its formatted dump; and no result when
  the answer has no content.
\<close>

theorem reconstruction:
  fixes msgs :: "'v Message list" and stringify :: "'v Block \<Rightarrow> string"
    and stringify2 :: "'v \<Rightarrow> string"
  defines "calls \<equiv> subagentToolCalls stringify stringify2 msgs"
  shows "length calls = length (requestsOf msgs) \<and>
    (\<forall>n<length (requestsOf msgs).
       tc_id (calls ! n) = tcr_id (requestsOf msgs ! n) \<and>
       tc_name (calls ! n) = or_else (tcr_name (requestsOf msgs ! n)) ''unknown'' \<and>
       tc_args (calls ! n) = (case tcr_args (requestsOf msgs ! n) of Some a \<Rightarrow> a | None \<Rightarrow> []) \<and>
       (if answersTo (tcr_id (requestsOf msgs ! n)) msgs = []
        then tc_status (calls ! n) = TcPending \<and> tc_result (calls ! n) = None
        else tc_status (calls ! n) = TcCompleted \<and>
             tc_result (calls ! n) =
               (case msg_content (last (answersTo (tcr_id (requestsOf msgs ! n)) msgs)) of
                  CString s \<Rightarrow> Some s
                | CArray items \<Rightarrow>
                    Some (join [CHR 0x0A]
                      (map (\<lambda>item. case item of
                              ItemString s \<Rightarrow> s
                            | ItemBlock b \<Rightarrow>
                                (case blk_text b of
                                   Some t \<Rightarrow> if t \<noteq> [] then t else stringify b
                                 | None \<Rightarrow> stringify b)) items))
                | CValue v \<Rightarrow> Some (stringify2 v)
                | CNone \<Rightarrow> None)))"
proof -
  have item: "itemText stringify =
      (\<lambda>item. case item of
                ItemString s \<Rightarrow> s
              | ItemBlock b \<Rightarrow>
                  (case blk_text b of
                     Some t \<Rightarrow> if t \<noteq> [] then t else stringify b
                   | None \<Rightarrow> stringify b))"
    by (auto simp: fun_eq_iff itemText_def split: ContentItem.splits option.splits)
  show ?thesis
    unfolding calls_def subagentToolCalls_map
    by (simp add: toolCallOf_def Let_def lookup_request resultContent_def item [symmetric]
        split: Content.splits)
qed

lemmas reconstruct_eval =
  subagentToolCalls_def toolResults_def toolCallOf_def resultContent_def itemText_def
  Let_def Map_get_def Map_set_def or_else_def sampleAi_def sampleTool_def
  sampleStringify_def sampleStringify2_def requestsOf_def answersTo_def

theorem reconstruction_witness:
  "subagentToolCalls sampleStringify sampleStringify2 [sampleAi, sampleTool (CString ''result'')]
     = [\<lparr>tc_id = Some ''tc1'', tc_name = ''search'', tc_args = [(''q'', ''x'')],
          tc_result = Some ''result'', tc_status = TcCompleted\<rparr>] \<and>
   subagentToolCalls sampleStringify sampleStringify2 [sampleAi]
     = [\<lparr>tc_id = Some ''tc1'', tc_name = ''search'', tc_args = [(''q'', ''x'')],
          tc_result = None, tc_status = TcPending\<rparr>] \<and>
   subagentToolCalls sampleStringify sampleStringify2 [sampleTool (CString ''result'')] = [] \<and>
   map tc_result (subagentToolCalls sampleStringify sampleStringify2
      [sampleAi, sampleTool (CArray [ItemBlock \<lparr>blk_text = Some ''a'', blk_fields = []\<rparr>,
                                     ItemBlock \<lparr>blk_text = None, blk_fields = [(''url'', ''u'')]\<rparr>,
                                     ItemString ''b''])])
     = [Some (''a'' @ [CHR 0x0A] @ ''[dump of the block]'' @ [CHR 0x0A] @ ''b'')] \<and>
   map tc_result (subagentToolCalls sampleStringify sampleStringify2
      [sampleAi, sampleTool (CValue ''v'')]) = [Some ''[formatted value]'']"
  using reconstruction [where msgs = "[sampleAi, sampleTool (CString ''result'')]"
      and stringify = sampleStringify and ?stringify2.0 = sampleStringify2]
  by (simp add: reconstruct_eval)

theorem empty_text_block_counterexample:
  "map (\<lambda>c. (tc_status c, tc_result c))
     (subagentToolCalls sampleStringify sampleStringify2
        [sampleAi, sampleTool (CArray [ItemBlock \<lparr>blk_text = Some '''',
                                                   blk_fields = [(''type'', ''text'')]\<rparr>])])
     = [(TcCompleted, Some ''[dump of the block]'')] \<and>
   map (\<lambda>c. (tc_status c, tc_result c))
     (subagentToolCalls sampleStringify sampleStringify2 [sampleAi, sampleTool CNone])
     = [(TcCompleted, None)]"
  by (simp add: reconstruct_eval)

lemma scenario_reconstruction:
  "subagentActivity sampleStringify sampleStringify2
     (Some (subagentMessages
        (runEvents [(1, sampleUpdate [''tools:call_1''] [sampleAi]),
                    (2, sampleDebug [''tools:call_1''] [sampleTool (CString ''result'')])]
           emptyDemux)))
   = Some [\<lparr>tc_id = Some ''tc1'', tc_name = ''search'', tc_args = [(''q'', ''x'')],
            tc_result = Some ''result'', tc_status = TcCompleted\<rparr>]"
  by (simp add: reconstruct_eval subagentActivity_def allSubagentMsgs_def
      runEvents_def onEvent_def sampleUpdate_def sampleDebug_def onUpdateEvent_def
      onDebugEvent_def updateMessages_def messageSources_def toolPayload_def List.map_filter_def
      toolCallIdOf_def toolCallIdMatch_def track_def Map_has_def emptyDemux_def)

end
